theory Spec2Isabelle
  imports Main "HOL-Library.Char_ord" "HOL-Library.List_Lexorder" "HOL-Library.Multiset"
    "HOL-Library.Sublist"
begin

section \<open>JavaScript strings\<close>

text \<open>
  A JavaScript string is a sequence of 16-bit code units. The model works on the code units
  below 256 (ISO Latin-1), one \<open>char\<close> each, so that \<open>length\<close> is the \<open>length\<close> property.
  Numbers are mathematical integers, which is what the source's doubles hold below \<open>2^53\<close>.
\<close>

definition isWhiteSpace :: "char \<Rightarrow> bool" where
  \<comment> \<open>the class \<open>\s\<close> and the characters removed by \<open>trim\<close>: TAB, LF, VT, FF, CR, SP, NBSP\<close>
  "isWhiteSpace c \<longleftrightarrow> (of_char c :: nat) \<in> set [9, 10, 11, 12, 13, 32, 160]"

definition trim :: "string \<Rightarrow> string" where
  "trim s = rev (dropWhile isWhiteSpace (rev (dropWhile isWhiteSpace s)))"

definition toLowerCaseChar :: "char \<Rightarrow> char" where
  "toLowerCaseChar c =
     (let n = (of_char c :: nat)
      in if (65 \<le> n \<and> n \<le> 90) \<or> (192 \<le> n \<and> n \<le> 222 \<and> n \<noteq> 215)
         then char_of (n + 32) else c)"

definition toLowerCase :: "string \<Rightarrow> string" where
  "toLowerCase s = map toLowerCaseChar s"

text \<open>\<open>s.split(/\s+/)\<close>: the pieces between maximal runs of white space; a run at either
  end leaves an empty piece there, and the empty string gives one empty piece.\<close>

fun splitWs :: "string \<Rightarrow> string \<Rightarrow> bool \<Rightarrow> string list" where
  "splitWs [] cur skipping = [rev cur]"
| "splitWs (c # cs) cur skipping =
     (if isWhiteSpace c
      then (if skipping then splitWs cs [] True else rev cur # splitWs cs [] True)
      else splitWs cs (c # cur) False)"

definition splitWhitespace :: "string \<Rightarrow> string list" where
  "splitWhitespace s = splitWs s [] False"

text \<open>\<open>s.split(sep)\<close> for a one-character separator.\<close>

fun splitChar :: "char \<Rightarrow> string \<Rightarrow> string \<Rightarrow> string list" where
  "splitChar sep [] cur = [rev cur]"
| "splitChar sep (c # cs) cur =
     (if c = sep then rev cur # splitChar sep cs [] else splitChar sep cs (c # cur))"

definition splitOn :: "char \<Rightarrow> string \<Rightarrow> string list" where
  "splitOn sep s = splitChar sep s []"

definition startsWith :: "string \<Rightarrow> string \<Rightarrow> bool" where
  "startsWith s p \<longleftrightarrow> take (length p) s = p"

fun includesStr :: "string \<Rightarrow> string \<Rightarrow> bool" where
  "includesStr [] p = (p = [])"
| "includesStr (c # cs) p = (startsWith (c # cs) p \<or> includesStr cs p)"

definition isDigit :: "char \<Rightarrow> bool" where
  "isDigit c \<longleftrightarrow> 48 \<le> (of_char c :: nat) \<and> (of_char c :: nat) \<le> 57"

definition isWordChar :: "char \<Rightarrow> bool" where
  \<comment> \<open>the class \<open>\w\<close>\<close>
  "isWordChar c \<longleftrightarrow>
     (let n = (of_char c :: nat)
      in (48 \<le> n \<and> n \<le> 57) \<or> (65 \<le> n \<and> n \<le> 90) \<or> (97 \<le> n \<and> n \<le> 122) \<or> n = 95)"

definition digitValue :: "char \<Rightarrow> nat" where
  "digitValue c =
     (let n = (of_char c :: nat)
      in if 48 \<le> n \<and> n \<le> 57 then n - 48
         else if 97 \<le> n \<and> n \<le> 102 then n - 87
         else if 65 \<le> n \<and> n \<le> 70 then n - 55
         else 36)"

definition digitsValue :: "nat \<Rightarrow> string \<Rightarrow> nat" where
  "digitsValue radix ds = fold (\<lambda>c a. radix * a + digitValue c) ds 0"

text \<open>\<open>parseInt(s)\<close> with no radix: leading white space, a sign, a \<open>0x\<close> prefix, then the
  longest run of digits of the radix; \<open>None\<close> is \<open>NaN\<close>.\<close>

definition parseInt :: "string \<Rightarrow> int option" where
  "parseInt s =
     (let s1 = dropWhile isWhiteSpace s;
          neg = startsWith s1 ''-'';
          s2 = (if startsWith s1 ''-'' \<or> startsWith s1 ''+'' then tl s1 else s1);
          hex = (startsWith s2 ''0x'' \<or> startsWith s2 ''0X'');
          radix = (if hex then 16 else 10);
          s3 = (if hex then drop 2 s2 else s2);
          z = takeWhile (\<lambda>c. digitValue c < radix) s3
      in if z = [] then None
         else Some (if neg then - int (digitsValue radix z) else int (digitsValue radix z)))"

fun decimal :: "nat \<Rightarrow> string" where
  "decimal n = (if n < 10 then [char_of (48 + n)] else decimal (n div 10) @ [char_of (48 + n mod 10)])"

declare decimal.simps [simp del]

definition numberToString :: "int \<Rightarrow> string" where
  \<comment> \<open>the property key of a number\<close>
  "numberToString i = (if i < 0 then CHR ''-'' # decimal (nat (- i)) else decimal (nat i))"

text \<open>\<open>s.match(/@[\w]+/g)\<close>: every \<open>@\<close> followed by at least one word character, with
  the longest run of word characters after it, scanning left to right.\<close>

fun mentionScan :: "string \<Rightarrow> string option \<Rightarrow> string list" where
  "mentionScan [] cur = (case cur of Some m \<Rightarrow> (if 1 < length m then [rev m] else []) | None \<Rightarrow> [])"
| "mentionScan (c # cs) None = mentionScan cs (if c = CHR ''@'' then Some [c] else None)"
| "mentionScan (c # cs) (Some m) =
     (if isWordChar c then mentionScan cs (Some (c # m))
      else (if 1 < length m then [rev m] else [])
           @ mentionScan cs (if c = CHR ''@'' then Some [c] else None))"

definition mentionMatches :: "string \<Rightarrow> string list" where
  "mentionMatches s = mentionScan s None"

text \<open>\<open>s.match(/\d+/)?.[0]\<close>: the first run of digits, if there is one.\<close>

definition firstDigits :: "string \<Rightarrow> string option" where
  "firstDigits s =
     (let r = takeWhile isDigit (dropWhile (\<lambda>c. \<not> isDigit c) s)
      in if r = [] then None else Some r)"

section \<open>Objects used as counters, and sets\<close>

text \<open>
  An object literal \<open>{}\<close> that the source fills with \<open>obj[k] = (obj[k] || 0) + n\<close> is the list
  of its own properties in creation order. Keys are own-property names throughout: the model
  does not cover keys that name a member of \<open>Object.prototype\<close>.
\<close>

type_synonym counter = "(string \<times> nat) list"

fun bump :: "string \<Rightarrow> nat \<Rightarrow> counter \<Rightarrow> counter" where
  "bump k n [] = [(k, n)]"
| "bump k n ((k', v) # kvs) = (if k' = k then (k', v + n) # kvs else (k', v) # bump k n kvs)"

definition countOf :: "counter \<Rightarrow> string \<Rightarrow> nat" where
  \<comment> \<open>\<open>obj[k] || 0\<close>\<close>
  "countOf obj k = (case map_of obj k of None \<Rightarrow> 0 | Some v \<Rightarrow> v)"

definition isArrayIndex :: "string \<Rightarrow> bool" where
  \<comment> \<open>a canonical numeric string below \<open>2^32 - 1\<close>\<close>
  "isArrayIndex k \<longleftrightarrow>
     k \<noteq> [] \<and> list_all isDigit k \<and> (k = ''0'' \<or> hd k \<noteq> CHR ''0'') \<and> digitsValue 10 k < 4294967295"

text \<open>\<open>Object.entries(obj)\<close>: the array-index keys in ascending numeric order, then the other
  keys in creation order.\<close>

definition entries :: "(string \<times> 'v) list \<Rightarrow> (string \<times> 'v) list" where
  "entries obj =
     sort_key (\<lambda>(k, v). digitsValue 10 k) (filter (\<lambda>(k, v). isArrayIndex k) obj)
     @ filter (\<lambda>(k, v). \<not> isArrayIndex k) obj"

text \<open>\<open>.sort(([,a], [,b]) => b - a)\<close>: the stable sort by descending count.\<close>

definition sortDesc :: "counter \<Rightarrow> counter" where
  "sortDesc es = sort_key (\<lambda>(k, v). - int v) es"

text \<open>A \<open>Set\<close> is the list of its elements in insertion order.\<close>

definition setAdd :: "'a \<Rightarrow> 'a list \<Rightarrow> 'a list" where
  "setAdd x xs = (if x \<in> set xs then xs else xs @ [x])"

text \<open>\<open>Math.round(sum / length)\<close> of a list of lengths, \<open>0\<close> for the empty list; rounding is
  half up.\<close>

definition roundedMean :: "nat list \<Rightarrow> nat" where
  "roundedMean ls =
     (if 0 < length ls then (2 * sum_list ls + length ls) div (2 * length ls) else 0)"

section \<open>The export document\<close>

text \<open>
  \<open>DOMParser\<close> and the selector queries are the browser's. A message is what the source
  reads from one element of \<open>doc.querySelectorAll('.message')\<close>: two class tests, the text of
  the first \<open>.from_name\<close>, \<open>.date.details\<close>, \<open>.body.details\<close> and \<open>.text\<close> descendants (\<open>None\<close> when
  \<open>querySelector\<close> gives \<open>null\<close>), the number of \<open>.reaction\<close> descendants, the \<open>href\<close> attribute
  of every \<open>a\<close> descendant in document order, and the \<open>.reply_to\<close> descendant.
\<close>

datatype date_elem = DateElem (title: "string option") (dateText: string)

datatype reply_elem = NoAnchor | Anchor (onclick: "string option")

record message =
  isDefault :: bool
  isService :: bool
  fromName :: "string option"
  dateDetails :: "date_elem option"
  bodyDetails :: "string option"
  textElem :: "string option"
  reactions :: nat
  anchors :: "string option list"
  replyTo :: "reply_elem option"

text \<open>
  \<open>new Date(s)\<close> is the engine's too: either an invalid date, or a date of which the source
  reads \<open>toLocaleDateString('en-US', {weekday: 'long'})\<close> and \<open>toISOString().split('T')[0]\<close>.
\<close>

datatype js_date = InvalidDate | ValidDate (weekday: string) (isoDate: string)

datatype error = DocumentError

record env =
  messagesOf :: "string \<Rightarrow> error + message list"
  newDate :: "string \<Rightarrow> js_date"

section \<open>analyzeChatLog\<close>

definition parseDate :: "(string \<Rightarrow> js_date) \<Rightarrow> string \<Rightarrow> js_date" where
  "parseDate nd dateStr =
     (let datePart = (case splitOn (CHR '' '') dateStr of p # _ \<Rightarrow> p | [] \<Rightarrow> ''undefined'');
          parts = splitOn (CHR ''.'') datePart;
          part = (\<lambda>i. if i < length parts then parts ! i else ''undefined'')
      in nd (part 2 @ ''-'' @ part 1 @ ''-'' @ part 0))"

definition userMessageElems :: "message list \<Rightarrow> message list" where
  "userMessageElems messages = filter isDefault messages"

definition serviceMessageElems :: "message list \<Rightarrow> message list" where
  "serviceMessageElems messages = filter isService messages"

definition fullDateOf :: "message \<Rightarrow> string option" where
  \<comment> \<open>the \<open>title\<close> attribute of the date element, when both are there and the attribute is
      not empty\<close>
  "fullDateOf msg =
     (case dateDetails msg of None \<Rightarrow> None
      | Some d \<Rightarrow> (case title d of None \<Rightarrow> None
                  | Some fullDate \<Rightarrow> if fullDate = [] then None else Some fullDate))"

subsection \<open>Users\<close>

definition userCounts :: "message list \<Rightarrow> counter" where
  "userCounts ums =
     fold (\<lambda>msg uc. case fromName msg of None \<Rightarrow> uc
                    | Some t \<Rightarrow> bump (trim t) 1 uc) ums []"

definition reactionCounts :: "message list \<Rightarrow> counter" where
  "reactionCounts ums =
     fold (\<lambda>msg rc. case fromName msg of None \<Rightarrow> rc
                    | Some t \<Rightarrow> if 0 < reactions msg then bump (trim t) (reactions msg) rc
                                else rc) ums []"

fun bumpNested :: "string \<Rightarrow> string \<Rightarrow> (string \<times> counter) list \<Rightarrow> (string \<times> counter) list" where
  "bumpNested name dateStr [] = [(name, [(dateStr, 1)])]"
| "bumpNested name dateStr ((n, c) # rest) =
     (if n = name then (n, bump dateStr 1 c) # rest else (n, c) # bumpNested name dateStr rest)"

definition userDates :: "(string \<Rightarrow> js_date) \<Rightarrow> message list \<Rightarrow> (string \<times> counter) list" where
  "userDates nd ums =
     fold (\<lambda>msg u. case fromName msg of None \<Rightarrow> u
            | Some t \<Rightarrow> (case fullDateOf msg of None \<Rightarrow> u
                | Some fullDate \<Rightarrow> (case parseDate nd fullDate of
                      InvalidDate \<Rightarrow> u
                    | ValidDate wd dateStr \<Rightarrow> bumpNested (trim t) dateStr u))) ums []"

definition userTypeTags :: "message list \<Rightarrow> string list" where
  "userTypeTags ums =
     fold (\<lambda>msg ts. case fromName msg of None \<Rightarrow> ts
            | Some t \<Rightarrow>
                (let name = trim t;
                     ts1 = (if includesStr name ''|'' then setAdd ''Team Member'' ts else ts);
                     ts2 = (if includesStr name ''admin'' then setAdd ''Admin'' ts1 else ts1)
                 in if includesStr name ''mod'' then setAdd ''Moderator'' ts2 else ts2)) ums []"

subsection \<open>Times\<close>

definition hourOf :: "message \<Rightarrow> int option" where
  \<comment> \<open>the hour that the second loop counts for a message, if it counts one\<close>
  "hourOf msg =
     (case dateDetails msg of None \<Rightarrow> None
      | Some d \<Rightarrow>
          (case fullDateOf msg of None \<Rightarrow> None
           | Some fullDate \<Rightarrow>
               (let timeText = trim (dateText d)
                in if CHR '':'' \<in> set timeText
                   then (case splitOn (CHR '':'') timeText of p # _ \<Rightarrow> parseInt p | [] \<Rightarrow> None)
                   else None)))"

definition hourCounts :: "message list \<Rightarrow> counter" where
  "hourCounts messages =
     fold (\<lambda>msg hc. case hourOf msg of None \<Rightarrow> hc
                    | Some hour \<Rightarrow> bump (numberToString hour) 1 hc) messages []"

definition dayOfWeekCounts :: "(string \<Rightarrow> js_date) \<Rightarrow> message list \<Rightarrow> counter" where
  \<comment> \<open>the weekday is counted before \<open>toISOString\<close> throws on an invalid date\<close>
  "dayOfWeekCounts nd messages =
     fold (\<lambda>msg dc. case fullDateOf msg of None \<Rightarrow> dc
            | Some fullDate \<Rightarrow> (case parseDate nd fullDate of
                  InvalidDate \<Rightarrow> bump ''Invalid Date'' 1 dc
                | ValidDate dayOfWeek dateStr \<Rightarrow> bump dayOfWeek 1 dc)) messages []"

definition dateCounts :: "(string \<Rightarrow> js_date) \<Rightarrow> message list \<Rightarrow> counter" where
  "dateCounts nd messages =
     fold (\<lambda>msg mc. case fullDateOf msg of None \<Rightarrow> mc
            | Some fullDate \<Rightarrow> (case parseDate nd fullDate of
                  InvalidDate \<Rightarrow> mc
                | ValidDate dayOfWeek dateStr \<Rightarrow> bump dateStr 1 mc)) messages []"

definition dates :: "message list \<Rightarrow> string list" where
  "dates messages =
     fold (\<lambda>msg ds. case bodyDetails msg of None \<Rightarrow> ds
            | Some t \<Rightarrow> if includesStr t ''2024'' \<and> CHR '':'' \<notin> set (trim t)
                        then setAdd (trim t) ds else ds) messages []"

subsection \<open>Content\<close>

definition messageLengths :: "message list \<Rightarrow> nat list" where
  "messageLengths ums =
     fold (\<lambda>msg ls. case textElem msg of None \<Rightarrow> ls
                    | Some t \<Rightarrow> ls @ [length (trim t)]) ums []"

definition countWords :: "string list \<Rightarrow> counter \<Rightarrow> counter" where
  "countWords ws freq = fold (\<lambda>word freq. if 3 < length word then bump word 1 freq else freq) ws freq"

definition wordFrequency :: "message list \<Rightarrow> counter" where
  "wordFrequency ums =
     fold (\<lambda>msg freq. case textElem msg of None \<Rightarrow> freq
            | Some t \<Rightarrow> countWords (splitWhitespace (toLowerCase (trim t))) freq) ums []"

definition mentions :: "message list \<Rightarrow> counter" where
  "mentions ums =
     fold (\<lambda>msg ms. case textElem msg of None \<Rightarrow> ms
            | Some t \<Rightarrow> fold (\<lambda>mention ms. bump mention 1 ms) (mentionMatches (trim t)) ms) ums []"

definition addLinks :: "string option list \<Rightarrow> string list \<Rightarrow> string list" where
  "addLinks hrefs ls =
     fold (\<lambda>href ls. case href of None \<Rightarrow> ls
            | Some h \<Rightarrow> if h \<noteq> [] \<and> \<not> startsWith h ''@'' then setAdd h ls else ls) hrefs ls"

definition links :: "message list \<Rightarrow> string list" where
  "links ums =
     fold (\<lambda>msg ls. case textElem msg of None \<Rightarrow> ls
                    | Some t \<Rightarrow> addLinks (anchors msg) ls) ums []"

definition replyChains :: "message list \<Rightarrow> counter" where
  "replyChains ums =
     fold (\<lambda>msg rc. case replyTo msg of None \<Rightarrow> rc
            | Some NoAnchor \<Rightarrow> rc
            | Some (Anchor None) \<Rightarrow> rc
            | Some (Anchor (Some handler)) \<Rightarrow>
                (case firstDigits handler of None \<Rightarrow> rc
                 | Some replyId \<Rightarrow> bump replyId 1 rc)) ums []"

subsection \<open>The per-document result\<close>

record metrics =
  totalMessages :: nat
  userMessages :: nat
  serviceMessages :: nat
  uniqueUsers :: nat
  messagesByUser :: counter
  messagesByHour :: counter
  messagesByDayOfWeek :: counter
  messagesByDate :: counter
  userMessagesByDate :: "(string \<times> counter) list"
  reactionsByUser :: counter
  datesCovered :: "string list"
  averageMessageLength :: nat
  messageLengthDistribution :: "nat list"
  topWords :: counter
  topMentions :: counter
  uniqueLinks :: "string list"
  userTypes :: "string list"
  longestThreads :: counter

definition analyzeMessages :: "(string \<Rightarrow> js_date) \<Rightarrow> message list \<Rightarrow> metrics" where
  "analyzeMessages nd messages =
     (let ums = userMessageElems messages
      in \<lparr> totalMessages = length messages,
           userMessages = length ums,
           serviceMessages = length (serviceMessageElems messages),
           uniqueUsers = length (userCounts ums),
           messagesByUser = userCounts ums,
           messagesByHour = hourCounts messages,
           messagesByDayOfWeek = dayOfWeekCounts nd messages,
           messagesByDate = dateCounts nd messages,
           userMessagesByDate = userDates nd ums,
           reactionsByUser = reactionCounts ums,
           datesCovered = sort (dates messages),
           averageMessageLength = roundedMean (messageLengths ums),
           messageLengthDistribution = messageLengths ums,
           topWords = take 50 (sortDesc (entries (wordFrequency ums))),
           topMentions = sortDesc (entries (mentions ums)),
           uniqueLinks = links ums,
           userTypes = userTypeTags ums,
           longestThreads = take 10 (sortDesc (entries (replyChains ums))) \<rparr>)"

definition analyzeChatLog :: "env \<Rightarrow> string \<Rightarrow> error + metrics" where
  \<comment> \<open>\<open>Inl\<close> is an exception leaving the function\<close>
  "analyzeChatLog e content =
     (case messagesOf e content of
        Inl err \<Rightarrow> Inl err
      | Inr messages \<Rightarrow> Inr (analyzeMessages (newDate e) messages))"

section \<open>aggregateMetrics\<close>

record aggregated =
  acc_totalMessages :: nat
  acc_userMessages :: nat
  acc_serviceMessages :: nat
  acc_uniqueUsers :: "string list"
  acc_messagesByUser :: counter
  acc_messagesByHour :: counter
  acc_messagesByDayOfWeek :: counter
  acc_messagesByDate :: counter
  acc_reactionsByUser :: counter
  acc_datesCovered :: "string list"
  acc_messageLengths :: "nat list"
  acc_wordFrequency :: counter
  acc_mentions :: counter
  acc_links :: "string list"
  acc_userTypes :: "string list"
  acc_replyChains :: counter

definition initialAggregated :: aggregated where
  "initialAggregated =
     \<lparr> acc_totalMessages = 0, acc_userMessages = 0, acc_serviceMessages = 0,
       acc_uniqueUsers = [], acc_messagesByUser = [], acc_messagesByHour = [],
       acc_messagesByDayOfWeek = [], acc_messagesByDate = [], acc_reactionsByUser = [],
       acc_datesCovered = [], acc_messageLengths = [], acc_wordFrequency = [],
       acc_mentions = [], acc_links = [], acc_userTypes = [], acc_replyChains = [] \<rparr>"

definition mergeCounts :: "counter \<Rightarrow> counter \<Rightarrow> counter" where
  \<comment> \<open>\<open>es.forEach(([k, count]) => { obj[k] = (obj[k] || 0) + count })\<close>\<close>
  "mergeCounts es obj = fold (\<lambda>(k, c) obj. bump k c obj) es obj"

definition mergeMetrics :: "aggregated \<Rightarrow> metrics \<Rightarrow> aggregated" where
  \<comment> \<open>the body of the \<open>try\<close> block after \<open>analyzeChatLog\<close> has returned\<close>
  "mergeMetrics a m =
     \<lparr> acc_totalMessages = acc_totalMessages a + totalMessages m,
       acc_userMessages = acc_userMessages a + userMessages m,
       acc_serviceMessages = acc_serviceMessages a + serviceMessages m,
       acc_uniqueUsers = fold (\<lambda>(user, c) us. setAdd user us) (entries (messagesByUser m)) (acc_uniqueUsers a),
       acc_messagesByUser = mergeCounts (entries (messagesByUser m)) (acc_messagesByUser a),
       acc_messagesByHour = mergeCounts (entries (messagesByHour m)) (acc_messagesByHour a),
       acc_messagesByDayOfWeek = mergeCounts (entries (messagesByDayOfWeek m)) (acc_messagesByDayOfWeek a),
       acc_messagesByDate = mergeCounts (entries (messagesByDate m)) (acc_messagesByDate a),
       acc_reactionsByUser = mergeCounts (entries (reactionsByUser m)) (acc_reactionsByUser a),
       acc_datesCovered = fold setAdd (datesCovered m) (acc_datesCovered a),
       acc_messageLengths = acc_messageLengths a @ messageLengthDistribution m,
       acc_wordFrequency = mergeCounts (topWords m) (acc_wordFrequency a),
       acc_mentions = mergeCounts (topMentions m) (acc_mentions a),
       acc_links = fold setAdd (uniqueLinks m) (acc_links a),
       acc_userTypes = fold setAdd (userTypes m) (acc_userTypes a),
       acc_replyChains = acc_replyChains a \<rparr>"

fun aggregateLoop :: "env \<Rightarrow> string list \<Rightarrow> aggregated \<Rightarrow> aggregated" where
  "aggregateLoop e [] a = a"
| "aggregateLoop e (content # rest) a =
     (case analyzeChatLog e content of
        Inl err \<Rightarrow> aggregateLoop e rest a
      | Inr m \<Rightarrow> aggregateLoop e rest (mergeMetrics a m))"

record aggregated_metrics =
  agg_totalMessages :: nat
  agg_userMessages :: nat
  agg_serviceMessages :: nat
  agg_uniqueUsers :: nat
  agg_messagesByUser :: counter
  agg_messagesByHour :: counter
  agg_messagesByDayOfWeek :: counter
  agg_messagesByDate :: counter
  agg_reactionsByUser :: counter
  agg_datesCovered :: "string list"
  agg_averageMessageLength :: nat
  agg_topWords :: counter
  agg_topMentions :: counter
  agg_uniqueLinks :: "string list"
  agg_userTypes :: "string list"
  agg_mostActiveUsers :: counter
  agg_mostReactedTo :: counter

definition result :: "aggregated \<Rightarrow> aggregated_metrics" where
  \<comment> \<open>the object that \<open>aggregateMetrics\<close> returns; a \<open>{user, count}\<close> object is a pair\<close>
  "result a =
     \<lparr> agg_totalMessages = acc_totalMessages a,
       agg_userMessages = acc_userMessages a,
       agg_serviceMessages = acc_serviceMessages a,
       agg_uniqueUsers = length (acc_uniqueUsers a),
       agg_messagesByUser = acc_messagesByUser a,
       agg_messagesByHour = acc_messagesByHour a,
       agg_messagesByDayOfWeek = acc_messagesByDayOfWeek a,
       agg_messagesByDate = acc_messagesByDate a,
       agg_reactionsByUser = acc_reactionsByUser a,
       agg_datesCovered = sort (acc_datesCovered a),
       agg_averageMessageLength = roundedMean (acc_messageLengths a),
       agg_topWords = take 50 (sortDesc (entries (acc_wordFrequency a))),
       agg_topMentions = take 20 (sortDesc (entries (acc_mentions a))),
       agg_uniqueLinks = acc_links a,
       agg_userTypes = acc_userTypes a,
       agg_mostActiveUsers = take 10 (sortDesc (entries (acc_messagesByUser a))),
       agg_mostReactedTo = take 10 (sortDesc (entries (acc_reactionsByUser a))) \<rparr>"

definition aggregateMetrics :: "env \<Rightarrow> string list \<Rightarrow> aggregated_metrics" where
  "aggregateMetrics e fileContents = result (aggregateLoop e fileContents initialAggregated)"

section \<open>The returned objects, property by property\<close>

text \<open>The two \<open>return\<close> statements as lists of property name and value, in source order.\<close>

datatype js_value =
    Number nat
  | Object counter
  | NestedObject "(string \<times> counter) list"
  | StringArray "string list"
  | NumberArray "nat list"
  | PairArray counter
  | UserCountArray counter

definition metricsObject :: "metrics \<Rightarrow> (string \<times> js_value) list" where
  "metricsObject m =
     [(''totalMessages'', Number (totalMessages m)),
      (''userMessages'', Number (userMessages m)),
      (''serviceMessages'', Number (serviceMessages m)),
      (''uniqueUsers'', Number (uniqueUsers m)),
      (''messagesByUser'', Object (messagesByUser m)),
      (''messagesByHour'', Object (messagesByHour m)),
      (''messagesByDayOfWeek'', Object (messagesByDayOfWeek m)),
      (''messagesByDate'', Object (messagesByDate m)),
      (''userMessagesByDate'', NestedObject (userMessagesByDate m)),
      (''reactionsByUser'', Object (reactionsByUser m)),
      (''datesCovered'', StringArray (datesCovered m)),
      (''averageMessageLength'', Number (averageMessageLength m)),
      (''messageLengthDistribution'', NumberArray (messageLengthDistribution m)),
      (''topWords'', PairArray (topWords m)),
      (''topMentions'', PairArray (topMentions m)),
      (''uniqueLinks'', StringArray (uniqueLinks m)),
      (''userTypes'', StringArray (userTypes m)),
      (''longestThreads'', PairArray (longestThreads m))]"

definition aggregatedObject :: "aggregated_metrics \<Rightarrow> (string \<times> js_value) list" where
  "aggregatedObject r =
     [(''totalMessages'', Number (agg_totalMessages r)),
      (''userMessages'', Number (agg_userMessages r)),
      (''serviceMessages'', Number (agg_serviceMessages r)),
      (''uniqueUsers'', Number (agg_uniqueUsers r)),
      (''messagesByUser'', Object (agg_messagesByUser r)),
      (''messagesByHour'', Object (agg_messagesByHour r)),
      (''messagesByDayOfWeek'', Object (agg_messagesByDayOfWeek r)),
      (''messagesByDate'', Object (agg_messagesByDate r)),
      (''reactionsByUser'', Object (agg_reactionsByUser r)),
      (''datesCovered'', StringArray (agg_datesCovered r)),
      (''averageMessageLength'', Number (agg_averageMessageLength r)),
      (''topWords'', PairArray (agg_topWords r)),
      (''topMentions'', PairArray (agg_topMentions r)),
      (''uniqueLinks'', StringArray (agg_uniqueLinks r)),
      (''userTypes'', StringArray (agg_userTypes r)),
      (''mostActiveUsers'', UserCountArray (agg_mostActiveUsers r)),
      (''mostReactedTo'', UserCountArray (agg_mostReactedTo r))]"

section \<open>Notions used in the statements\<close>

definition sumFor :: "counter \<Rightarrow> string \<Rightarrow> nat" where
  "sumFor es k = sum_list (map snd (filter (\<lambda>(k', c). k' = k) es))"

definition keySet :: "(string \<times> 'v) list \<Rightarrow> string set" where
  "keySet obj = fst ` set obj"

definition descending :: "counter \<Rightarrow> bool" where
  "descending es \<longleftrightarrow> sorted_wrt (\<lambda>a b. snd b \<le> snd a) es"

text \<open>The results of the documents of a batch that \<open>analyzeChatLog\<close> returned for, in order.\<close>

definition processed :: "env \<Rightarrow> string list \<Rightarrow> metrics list" where
  "processed e fileContents =
     concat (map (\<lambda>content. case analyzeChatLog e content of Inl err \<Rightarrow> [] | Inr m \<Rightarrow> [m])
                 fileContents)"

text \<open>The elements of a list in the order of their first occurrence.\<close>

fun firstSeen :: "'a list \<Rightarrow> 'a list" where
  "firstSeen [] = []"
| "firstSeen (x # xs) = x # removeAll x (firstSeen xs)"

text \<open>The sum over a list of results of the count that one of their counters has for a key.\<close>

definition totalOver :: "(metrics \<Rightarrow> counter) \<Rightarrow> metrics list \<Rightarrow> string \<Rightarrow> nat" where
  "totalOver f ms k = sum_list (map (\<lambda>m. countOf (f m) k) ms)"

definition distinctKeys :: "(string \<times> 'v) list \<Rightarrow> bool" where
  "distinctKeys obj \<longleftrightarrow> distinct (map fst obj)"

text \<open>The mention tokens of a document's user messages, in order.\<close>

definition mentionTokens :: "message list \<Rightarrow> string list" where
  "mentionTokens messages =
     concat (map (\<lambda>msg. case textElem msg of None \<Rightarrow> [] | Some t \<Rightarrow> mentionMatches (trim t))
                 (userMessageElems messages))"

definition succeeds :: "env \<Rightarrow> string \<Rightarrow> bool" where
  "succeeds e content = (case analyzeChatLog e content of Inl err \<Rightarrow> False | Inr m \<Rightarrow> True)"

text \<open>The result with every count zero and every mapping and list empty.\<close>

definition zeroedMetrics :: aggregated_metrics where
  "zeroedMetrics =
     \<lparr> agg_totalMessages = 0, agg_userMessages = 0, agg_serviceMessages = 0,
       agg_uniqueUsers = 0, agg_messagesByUser = [], agg_messagesByHour = [],
       agg_messagesByDayOfWeek = [], agg_messagesByDate = [], agg_reactionsByUser = [],
       agg_datesCovered = [], agg_averageMessageLength = 0, agg_topWords = [],
       agg_topMentions = [], agg_uniqueLinks = [], agg_userTypes = [],
       agg_mostActiveUsers = [], agg_mostReactedTo = [] \<rparr>"

text \<open>The link targets that count for a message: the \<open>href\<close> values of its anchors that are
  present, not empty and do not begin with \<open>@\<close>; and those of the user messages of a document
  that have a text element, in document order.\<close>

definition linkTargets :: "message \<Rightarrow> string list" where
  "linkTargets msg =
     concat (map (\<lambda>href. case href of None \<Rightarrow> []
                    | Some h \<Rightarrow> if h \<noteq> [] \<and> \<not> startsWith h ''@'' then [h] else [])
                 (anchors msg))"

definition linkStream :: "message list \<Rightarrow> string list" where
  "linkStream messages =
     concat (map linkTargets (filter (\<lambda>msg. textElem msg \<noteq> None) (userMessageElems messages)))"

text \<open>The trimmed sender names of the user messages that have a name element, in order.\<close>

definition senderNames :: "message list \<Rightarrow> string list" where
  "senderNames messages =
     concat (map (\<lambda>msg. case fromName msg of None \<Rightarrow> [] | Some t \<Rightarrow> [trim t])
                 (userMessageElems messages))"

text \<open>The hour of a displayed time text: the integer that \<open>parseInt\<close> reads from the part of
  the trimmed text before its first colon, if the text has a colon and that part parses.\<close>

definition leadingHour :: "string \<Rightarrow> int option" where
  "leadingHour timeText =
     (if CHR '':'' \<in> set (trim timeText)
      then parseInt (takeWhile (\<lambda>c. c \<noteq> CHR '':'') (trim timeText)) else None)"

text \<open>The keys that the messages of a document contribute to \<open>messagesByHour\<close>, in order: one
  for each message whose date element has a \<open>title\<close> that is not empty and a time text with
  an hour.\<close>

definition hourKeys :: "message list \<Rightarrow> string list" where
  "hourKeys messages =
     concat (map (\<lambda>msg. case dateDetails msg of None \<Rightarrow> []
                   | Some d \<Rightarrow> (case title d of None \<Rightarrow> []
                       | Some t \<Rightarrow> if t = [] then []
                                  else (case leadingHour (dateText d) of None \<Rightarrow> []
                                        | Some h \<Rightarrow> [numberToString h])))
                 messages)"

text \<open>A message with the text of its date element, if it has one, replaced.\<close>

definition withTimeText :: "(message \<Rightarrow> string) \<Rightarrow> message \<Rightarrow> message" where
  "withTimeText f msg =
     msg \<lparr> dateDetails := map_option (\<lambda>d. DateElem (title d) (f msg)) (dateDetails msg) \<rparr>"

text \<open>The words that a document counts, in order: the pieces longer than three characters
  of the lower-cased trimmed texts of its user messages.\<close>

definition wordTokens :: "message list \<Rightarrow> string list" where
  "wordTokens messages =
     concat (map (\<lambda>msg. case textElem msg of None \<Rightarrow> []
                   | Some t \<Rightarrow> filter (\<lambda>word. 3 < length word)
                                     (splitWhitespace (toLowerCase (trim t))))
                 (userMessageElems messages))"

text \<open>\<open>a\<close> occurs in a list before the first occurrence of \<open>b\<close>.\<close>

definition firstBefore :: "'a list \<Rightarrow> 'a \<Rightarrow> 'a \<Rightarrow> bool" where
  "firstBefore xs a b \<longleftrightarrow> a \<in> set (takeWhile (\<lambda>x. x \<noteq> b) xs)"

section \<open>Example documents\<close>

definition plainMessage :: "string \<Rightarrow> message" where
  \<comment> \<open>a user message with a text element and nothing else\<close>
  "plainMessage t =
     \<lparr> isDefault = True, isService = False, fromName = None, dateDetails = None,
       bodyDetails = None, textElem = Some t, reactions = 0, anchors = [], replyTo = None \<rparr>"

definition noDates :: "string \<Rightarrow> js_date" where
  "noDates s = InvalidDate"

definition docA_lengths :: "message list" where
  "docA_lengths = [plainMessage ''ab'', plainMessage ''abcd'', plainMessage ''abcdef'']"

definition docB_lengths :: "message list" where
  "docB_lengths = [plainMessage ''abcdefgh'']"

definition lengthsEnv :: env where
  "lengthsEnv =
     \<lparr> messagesOf = (\<lambda>c. if c = ''A'' then Inr docA_lengths
                         else if c = ''B'' then Inr docB_lengths else Inl DocumentError),
       newDate = noDates \<rparr>"

definition docM1 :: "message list" where
  "docM1 = [plainMessage
     ''@a @b @c @d @e @f @g @h @i @j @k @l @m @n @o @p @q @r @s @t @u @v'']"

definition docM2 :: "message list" where
  "docM2 = [plainMessage ''@v @v @a'']"

definition mentionsEnv :: env where
  "mentionsEnv =
     \<lparr> messagesOf = (\<lambda>c. if c = ''M1'' then Inr docM1
                         else if c = ''M2'' then Inr docM2 else Inl DocumentError),
       newDate = noDates \<rparr>"

definition userMessage :: "string \<Rightarrow> nat \<Rightarrow> message" where
  \<comment> \<open>a user message with a sender name and a number of reactions\<close>
  "userMessage name r =
     \<lparr> isDefault = True, isService = False, fromName = Some name, dateDetails = None,
       bodyDetails = None, textElem = None, reactions = r, anchors = [], replyTo = None \<rparr>"

definition docU1 :: "message list" where
  "docU1 = map (\<lambda>name. userMessage name 1)
     [''ann'', ''bob'', ''cat'', ''dan'', ''eve'', ''fay'', ''gus'', ''hal'', ''ivy'', ''jon'', ''kim'']"

definition docU2 :: "message list" where
  "docU2 = [userMessage ''kim'' 2, userMessage ''kim'' 0, userMessage ''ann'' 1]"

definition usersEnv :: env where
  "usersEnv =
     \<lparr> messagesOf = (\<lambda>c. if c = ''U1'' then Inr docU1
                         else if c = ''U2'' then Inr docU2 else Inl DocumentError),
       newDate = noDates \<rparr>"

definition serviceMessage :: message where
  "serviceMessage =
     \<lparr> isDefault = False, isService = True, fromName = None, dateDetails = None,
       bodyDetails = None, textElem = None, reactions = 0, anchors = [], replyTo = None \<rparr>"

definition docOk :: "message list" where
  "docOk = [userMessage ''ann'' 0, plainMessage ''hello there'', serviceMessage]"

definition faultyEnv :: env where
  \<comment> \<open>the empty string has no message, \<open>''bad''\<close> makes \<open>analyzeChatLog\<close> throw\<close>
  "faultyEnv =
     \<lparr> messagesOf = (\<lambda>c. if c = [] then Inr []
                         else if c = ''ok'' then Inr docOk else Inl DocumentError),
       newDate = noDates \<rparr>"

definition mediaMessage :: message where
  \<comment> \<open>a user message with a link and no text element\<close>
  "mediaMessage =
     \<lparr> isDefault = True, isService = False, fromName = Some ''ann'', dateDetails = None,
       bodyDetails = None, textElem = None, reactions = 0,
       anchors = [Some ''https://example.org/a''], replyTo = None \<rparr>"

definition docL1 :: "message list" where
  "docL1 =
     [(plainMessage ''see the links'')
        \<lparr> anchors := [Some ''https://b.example'', Some ''@bob'', Some ''https://a.example'',
                        None, Some [], Some ''https://b.example''] \<rparr>,
      mediaMessage]"

definition docL2 :: "message list" where
  "docL2 =
     [(plainMessage ''more'') \<lparr> anchors := [Some ''https://c.example'', Some ''https://a.example''] \<rparr>]"

definition linksEnv :: env where
  "linksEnv =
     \<lparr> messagesOf = (\<lambda>c. if c = ''L1'' then Inr docL1
                         else if c = ''L2'' then Inr docL2 else Inl DocumentError),
       newDate = noDates \<rparr>"

definition docBlank :: "message list" where
  \<comment> \<open>one user message whose name element holds white space only\<close>
  "docBlank = [userMessage ''   '' 1]"

definition docNames :: "message list" where
  "docNames = [userMessage '' bob '' 0, userMessage ''bob'' 2, userMessage ''  '' 0,
               userMessage ''amy'' 1, plainMessage ''no name element'', serviceMessage]"

definition timedMessage :: "string option \<Rightarrow> string \<Rightarrow> message" where
  \<comment> \<open>a user message with a date element: its \<open>title\<close> attribute and its text\<close>
  "timedMessage t txt =
     \<lparr> isDefault = True, isService = False, fromName = Some ''ann'',
       dateDetails = Some (DateElem t txt), bodyDetails = None, textElem = Some ''hello'',
       reactions = 0, anchors = [], replyTo = None \<rparr>"

definition january :: "string \<Rightarrow> js_date" where
  "january s = (if s = ''2024-01-01'' then ValidDate ''Monday'' ''2024-01-01'' else InvalidDate)"

definition docH :: "message list" where
  "docH =
     [timedMessage (Some ''01.01.2024 09:15:00 UTC+01:00'') ''09:15'',
      timedMessage (Some ''01.01.2024 23:59:00 UTC+01:00'') ''99:00'',
      timedMessage (Some ''01.01.2024 10:00:00 UTC+01:00'') ''ab:cd'',
      timedMessage None ''10:30'']"

definition docTieA :: "message list" where
  "docTieA = [plainMessage ''aaaa bbbb bbbb'']"

definition docTieB :: "message list" where
  "docTieB = [plainMessage ''aaaa'']"

definition tieEnv :: env where
  "tieEnv =
     \<lparr> messagesOf = (\<lambda>c. if c = ''A'' then Inr docTieA
                         else if c = ''B'' then Inr docTieB else Inl DocumentError),
       newDate = noDates \<rparr>"

definition docYear :: "message list" where
  "docYear = [plainMessage ''hello 2024'']"

definition docWords :: "message list" where
  "docWords = [plainMessage ''Delta alpha the DELTA'', plainMessage ''gamma alpha  beta1 ok'']"

section \<open>Counters, entries and sorting\<close>

lemma countOf_Nil [simp]: "countOf [] k = 0"
  by (simp add: countOf_def)

lemma key_in: "(k, v) \<in> set obj \<Longrightarrow> k \<in> fst ` set obj"
  by force

lemma countOf_bump: "countOf (bump k n obj) k' = (if k' = k then countOf obj k + n else countOf obj k')"
  by (induction obj) (auto simp: countOf_def)

lemma map_fst_bump: "map fst (bump k n obj) = (if k \<in> set (map fst obj) then map fst obj else map fst obj @ [k])"
  by (induction obj) (auto dest: key_in)

lemma keySet_bump: "keySet (bump k n obj) = insert k (keySet obj)"
proof -
  have "set (map fst (bump k n obj)) = insert k (set (map fst obj))"
    unfolding map_fst_bump by auto
  then show ?thesis by (simp add: keySet_def)
qed

lemma keySet_Nil [simp]: "keySet [] = {}"
  by (simp add: keySet_def)

lemma keySet_member: "(k, v) \<in> set obj \<Longrightarrow> k \<in> keySet obj"
  unfolding keySet_def by force

lemma distinct_bump: "distinct (map fst obj) \<Longrightarrow> distinct (map fst (bump k n obj))"
  unfolding map_fst_bump by auto

lemma bump_notin: "k \<notin> set (map fst obj) \<Longrightarrow> bump k n obj = obj @ [(k, n)]"
  by (induction obj) auto

lemma sumFor_Nil [simp]: "sumFor [] k = 0"
  by (simp add: sumFor_def)

lemma sumFor_Cons: "sumFor ((k', c) # es) k = (if k' = k then c else 0) + sumFor es k"
  by (simp add: sumFor_def)

lemma sumFor_append: "sumFor (xs @ ys) k = sumFor xs k + sumFor ys k"
  by (simp add: sumFor_def)

lemma sumFor_mset: "mset xs = mset ys \<Longrightarrow> sumFor xs k = sumFor ys k"
proof -
  assume "mset xs = mset ys"
  then have "mset (map snd (filter (\<lambda>(k', c). k' = k) xs)) = mset (map snd (filter (\<lambda>(k', c). k' = k) ys))"
    by (metis mset_filter mset_map)
  then show ?thesis unfolding sumFor_def by (metis sum_mset_sum_list)
qed

lemma sumFor_notin: "k \<notin> keySet es \<Longrightarrow> sumFor es k = 0"
  by (induction es) (auto simp: sumFor_Cons keySet_def)

lemma countOf_Cons: "countOf ((k', c) # obj) k = (if k' = k then c else countOf obj k)"
  by (simp add: countOf_def)

lemma sumFor_distinct: "distinct (map fst obj) \<Longrightarrow> sumFor obj k = countOf obj k"
proof (induction obj)
  case Nil
  then show ?case by simp
next
  case (Cons p obj)
  obtain k' c where p: "p = (k', c)" by (cases p)
  show ?case
  proof (cases "k' = k")
    case True
    with Cons.prems p have "k \<notin> keySet obj" by (auto simp: keySet_def)
    then have "sumFor obj k = 0" by (rule sumFor_notin)
    with True p show ?thesis by (simp add: sumFor_Cons countOf_Cons)
  next
    case False
    with Cons p show ?thesis by (simp add: sumFor_Cons countOf_Cons)
  qed
qed

lemma countOf_mergeCounts: "countOf (mergeCounts es obj) k = countOf obj k + sumFor es k"
  unfolding mergeCounts_def
  by (induction es arbitrary: obj) (auto simp: sumFor_Cons countOf_bump)

lemma keySet_mergeCounts: "keySet (mergeCounts es obj) = keySet es \<union> keySet obj"
  unfolding mergeCounts_def
proof (induction es arbitrary: obj)
  case Nil
  then show ?case by simp
next
  case (Cons p es)
  obtain k c where p: "p = (k, c)" by (cases p)
  have "keySet (fold (\<lambda>(k, c). bump k c) es (bump k c obj)) = keySet es \<union> keySet (bump k c obj)"
    by (rule Cons.IH)
  then show ?case unfolding p keySet_bump by (auto simp: keySet_def)
qed

lemma distinct_mergeCounts: "distinct (map fst obj) \<Longrightarrow> distinct (map fst (mergeCounts es obj))"
  unfolding mergeCounts_def
  by (induction es arbitrary: obj) (auto simp: distinct_bump)

lemma mset_entries: "mset (entries obj) = mset obj"
  unfolding entries_def by (induction obj) (auto)

lemma set_entries [simp]: "set (entries obj) = set obj"
  by (metis mset_entries set_mset_mset)

lemma keySet_entries [simp]: "keySet (entries obj) = keySet obj"
  by (simp add: keySet_def)

lemma length_entries [simp]: "length (entries obj) = length obj"
  by (metis mset_entries size_mset)

lemma distinct_entries: "distinct (map fst obj) \<Longrightarrow> distinct (map fst (entries obj))"
  by (metis mset_entries mset_map distinct_count_atmost_1 set_mset_mset)

lemma mset_sortDesc: "mset (sortDesc es) = mset es"
  by (simp add: sortDesc_def)

lemma set_sortDesc [simp]: "set (sortDesc es) = set es"
  by (simp add: sortDesc_def)

lemma keySet_sortDesc [simp]: "keySet (sortDesc es) = keySet es"
  by (simp add: keySet_def)

lemma length_sortDesc [simp]: "length (sortDesc es) = length es"
  by (simp add: sortDesc_def)

lemma descending_sortDesc: "descending (sortDesc es)"
proof -
  have "sorted (map (\<lambda>(k, v). - int v) (sortDesc es))"
    unfolding sortDesc_def by (rule sorted_sort_key)
  then have "sorted_wrt (\<lambda>a b. (case a of (k, v) \<Rightarrow> - int v) \<le> (case b of (k, v) \<Rightarrow> - int v)) (sortDesc es)"
    by (simp add: sorted_map)
  then show ?thesis
    unfolding descending_def by (rule sorted_wrt_mono_rel [rotated]) (auto split: prod.splits)
qed

lemma descending_take: "descending es \<Longrightarrow> descending (take n es)"
  unfolding descending_def by (rule sorted_wrt_take)

lemma descending_cut:
  assumes "descending es" "x \<in> set (take n es)" "y \<in> set (drop n es)"
  shows "snd y \<le> snd x"
proof -
  have "sorted_wrt (\<lambda>a b. snd b \<le> snd a) (take n es @ drop n es)"
    using assms(1) by (simp add: descending_def)
  then show ?thesis using assms(2,3) unfolding sorted_wrt_append by blast
qed

section \<open>The fold over the documents\<close>

lemma aggregateLoop_fold:
  "aggregateLoop e fileContents a = fold (\<lambda>m a. mergeMetrics a m) (processed e fileContents) a"
  by (induction fileContents arbitrary: a) (auto simp: processed_def split: sum.splits)

lemma fold_merge_messageLengths:
  "acc_messageLengths (fold (\<lambda>m a. mergeMetrics a m) ms a)
   = acc_messageLengths a @ concat (map messageLengthDistribution ms)"
  by (induction ms arbitrary: a) (simp_all add: mergeMetrics_def)

lemma fold_merge_messagesByUser:
  "acc_messagesByUser (fold (\<lambda>m a. mergeMetrics a m) ms a)
   = fold (\<lambda>m obj. mergeCounts (entries (messagesByUser m)) obj) ms (acc_messagesByUser a)"
  by (induction ms arbitrary: a) (simp_all add: mergeMetrics_def)

lemma fold_merge_reactionsByUser:
  "acc_reactionsByUser (fold (\<lambda>m a. mergeMetrics a m) ms a)
   = fold (\<lambda>m obj. mergeCounts (entries (reactionsByUser m)) obj) ms (acc_reactionsByUser a)"
  by (induction ms arbitrary: a) (simp_all add: mergeMetrics_def)

lemma fold_merge_messagesByHour:
  "acc_messagesByHour (fold (\<lambda>m a. mergeMetrics a m) ms a)
   = fold (\<lambda>m obj. mergeCounts (entries (messagesByHour m)) obj) ms (acc_messagesByHour a)"
  by (induction ms arbitrary: a) (simp_all add: mergeMetrics_def)

lemma fold_merge_messagesByDayOfWeek:
  "acc_messagesByDayOfWeek (fold (\<lambda>m a. mergeMetrics a m) ms a)
   = fold (\<lambda>m obj. mergeCounts (entries (messagesByDayOfWeek m)) obj) ms (acc_messagesByDayOfWeek a)"
  by (induction ms arbitrary: a) (simp_all add: mergeMetrics_def)

lemma fold_merge_messagesByDate:
  "acc_messagesByDate (fold (\<lambda>m a. mergeMetrics a m) ms a)
   = fold (\<lambda>m obj. mergeCounts (entries (messagesByDate m)) obj) ms (acc_messagesByDate a)"
  by (induction ms arbitrary: a) (simp_all add: mergeMetrics_def)

lemma fold_merge_wordFrequency:
  "acc_wordFrequency (fold (\<lambda>m a. mergeMetrics a m) ms a)
   = fold (\<lambda>m obj. mergeCounts (topWords m) obj) ms (acc_wordFrequency a)"
  by (induction ms arbitrary: a) (simp_all add: mergeMetrics_def)

lemma fold_merge_mentions:
  "acc_mentions (fold (\<lambda>m a. mergeMetrics a m) ms a)
   = fold (\<lambda>m obj. mergeCounts (topMentions m) obj) ms (acc_mentions a)"
  by (induction ms arbitrary: a) (simp_all add: mergeMetrics_def)

lemma fold_merge_links:
  "acc_links (fold (\<lambda>m a. mergeMetrics a m) ms a) = fold setAdd (concat (map uniqueLinks ms)) (acc_links a)"
  by (induction ms arbitrary: a) (simp_all add: mergeMetrics_def)

lemma fold_merge_uniqueUsers:
  "acc_uniqueUsers (fold (\<lambda>m a. mergeMetrics a m) ms a)
   = fold setAdd (concat (map (\<lambda>m. map fst (entries (messagesByUser m))) ms)) (acc_uniqueUsers a)"
proof -
  have step: "fold (\<lambda>(user, c) us. setAdd user us) es us = fold setAdd (map fst es) us" for es :: counter and us
    by (induction es arbitrary: us) (auto split: prod.splits)
  show ?thesis
    by (induction ms arbitrary: a) (simp_all add: mergeMetrics_def step)
qed

lemma fold_merge_scalars:
  "acc_totalMessages (fold (\<lambda>m a. mergeMetrics a m) ms a) = acc_totalMessages a + sum_list (map totalMessages ms)"
  "acc_userMessages (fold (\<lambda>m a. mergeMetrics a m) ms a) = acc_userMessages a + sum_list (map userMessages ms)"
  "acc_serviceMessages (fold (\<lambda>m a. mergeMetrics a m) ms a) = acc_serviceMessages a + sum_list (map serviceMessages ms)"
  by (induction ms arbitrary: a) (simp_all add: mergeMetrics_def)

text \<open>Merging the entries of several counters sums them key by key.\<close>

lemma countOf_fold_mergeCounts:
  "countOf (fold (\<lambda>m obj. mergeCounts (f m) obj) ms obj) k
   = countOf obj k + sum_list (map (\<lambda>m. sumFor (f m) k) ms)"
  by (induction ms arbitrary: obj) (simp_all add: countOf_mergeCounts)

lemma keySet_fold_mergeCounts:
  "keySet (fold (\<lambda>m obj. mergeCounts (f m) obj) ms obj) = keySet obj \<union> (\<Union>m \<in> set ms. keySet (f m))"
  by (induction ms arbitrary: obj) (auto simp: keySet_mergeCounts)

lemma distinct_fold_mergeCounts:
  "distinct (map fst obj) \<Longrightarrow> distinct (map fst (fold (\<lambda>m obj. mergeCounts (f m) obj) ms obj))"
  by (induction ms arbitrary: obj) (simp_all add: distinct_mergeCounts)

lemma averageMessageLength_analyze:
  "analyzeChatLog e c = Inr m \<Longrightarrow> averageMessageLength m = roundedMean (messageLengthDistribution m)"
  by (auto simp: analyzeChatLog_def analyzeMessages_def Let_def split: sum.splits)

lemma entries_Nil [simp]: "entries [] = []"
  by (simp add: entries_def)

lemma sortDesc_Nil [simp]: "sortDesc [] = []"
  by (simp add: sortDesc_def)

lemma mergeCounts_Nil [simp]: "mergeCounts [] obj = obj"
  by (simp add: mergeCounts_def)

lemma analyzeMessages_Nil:
  "analyzeMessages nd [] =
     \<lparr> totalMessages = 0, userMessages = 0, serviceMessages = 0, uniqueUsers = 0,
       messagesByUser = [], messagesByHour = [], messagesByDayOfWeek = [], messagesByDate = [],
       userMessagesByDate = [], reactionsByUser = [], datesCovered = [],
       averageMessageLength = 0, messageLengthDistribution = [], topWords = [],
       topMentions = [], uniqueLinks = [], userTypes = [], longestThreads = [] \<rparr>"
  by (simp add: analyzeMessages_def userMessageElems_def serviceMessageElems_def userCounts_def
      hourCounts_def dayOfWeekCounts_def dateCounts_def userDates_def reactionCounts_def dates_def
      roundedMean_def messageLengths_def wordFrequency_def mentions_def links_def
      userTypeTags_def replyChains_def)

lemma mergeMetrics_empty: "mergeMetrics a (analyzeMessages nd []) = a"
  by (simp add: analyzeMessages_Nil mergeMetrics_def)

lemma result_initial: "result initialAggregated = zeroedMetrics"
  by (simp add: result_def initialAggregated_def zeroedMetrics_def roundedMean_def)

lemma processed_filter: "processed e (filter (succeeds e) fileContents) = processed e fileContents"
  by (induction fileContents) (auto simp: processed_def succeeds_def split: sum.splits)

section \<open>Keys that occur once, and rankings\<close>

lemma distinctKeys_Nil [simp]: "distinctKeys []"
  by (simp add: distinctKeys_def)

lemma distinctKeys_bump: "distinctKeys obj \<Longrightarrow> distinctKeys (bump k n obj)"
  unfolding distinctKeys_def by (rule distinct_bump)

lemma distinctKeys_fold:
  assumes "\<And>x obj. distinctKeys obj \<Longrightarrow> distinctKeys (f x obj)" "distinctKeys obj"
  shows "distinctKeys (fold f xs obj)"
  using assms(2) by (induction xs arbitrary: obj) (simp_all add: assms(1))

lemma distinctKeys_entries: "distinctKeys obj \<Longrightarrow> distinctKeys (entries obj)"
  unfolding distinctKeys_def by (rule distinct_entries)

lemma distinctKeys_sortDesc: "distinctKeys es \<Longrightarrow> distinctKeys (sortDesc es)"
  unfolding distinctKeys_def
  by (metis mset_sortDesc mset_map distinct_count_atmost_1 set_mset_mset)

lemma distinctKeys_take: "distinctKeys es \<Longrightarrow> distinctKeys (take n es)"
  unfolding distinctKeys_def by (simp add: take_map [symmetric])

lemma distinctKeys_mergeCounts: "distinctKeys obj \<Longrightarrow> distinctKeys (mergeCounts es obj)"
  unfolding distinctKeys_def by (rule distinct_mergeCounts)

lemma distinctKeys_fold_mergeCounts:
  "distinctKeys obj \<Longrightarrow> distinctKeys (fold (\<lambda>m obj. mergeCounts (f m) obj) ms obj)"
  by (rule distinctKeys_fold) (rule distinctKeys_mergeCounts)

lemma countOf_member: "distinctKeys obj \<Longrightarrow> (k, c) \<in> set obj \<Longrightarrow> countOf obj k = c"
  unfolding distinctKeys_def countOf_def by simp

lemma sumFor_countOf: "distinctKeys obj \<Longrightarrow> sumFor obj k = countOf obj k"
  unfolding distinctKeys_def by (rule sumFor_distinct)

lemma countOf_entries: "distinctKeys obj \<Longrightarrow> countOf (entries obj) k = countOf obj k"
  by (metis sumFor_countOf distinctKeys_entries sumFor_mset mset_entries)

lemma countOf_sortDesc: "distinctKeys obj \<Longrightarrow> countOf (sortDesc obj) k = countOf obj k"
  by (metis sumFor_countOf distinctKeys_sortDesc sumFor_mset mset_sortDesc)

lemma distinctKeys_userCounts: "distinctKeys (userCounts ums)"
  unfolding userCounts_def
  by (rule distinctKeys_fold) (auto split: option.splits intro: distinctKeys_bump)

lemma distinctKeys_reactionCounts: "distinctKeys (reactionCounts ums)"
  unfolding reactionCounts_def
  by (rule distinctKeys_fold) (auto split: option.splits intro: distinctKeys_bump)

lemma distinctKeys_hourCounts: "distinctKeys (hourCounts ms)"
  unfolding hourCounts_def
  by (rule distinctKeys_fold) (auto split: option.splits intro: distinctKeys_bump)

lemma distinctKeys_dayOfWeekCounts: "distinctKeys (dayOfWeekCounts nd ms)"
  unfolding dayOfWeekCounts_def
  by (rule distinctKeys_fold) (auto split: option.splits js_date.splits intro: distinctKeys_bump)

lemma distinctKeys_dateCounts: "distinctKeys (dateCounts nd ms)"
  unfolding dateCounts_def
  by (rule distinctKeys_fold) (auto split: option.splits js_date.splits intro: distinctKeys_bump)

lemma distinctKeys_countWords: "distinctKeys freq \<Longrightarrow> distinctKeys (countWords ws freq)"
  unfolding countWords_def
  by (rule distinctKeys_fold) (auto intro: distinctKeys_bump)

lemma distinctKeys_wordFrequency: "distinctKeys (wordFrequency ums)"
  unfolding wordFrequency_def
  by (rule distinctKeys_fold) (auto split: option.splits intro: distinctKeys_countWords)

lemma distinctKeys_mentions: "distinctKeys (mentions ums)"
  unfolding mentions_def
  by (rule distinctKeys_fold) (auto split: option.splits intro: distinctKeys_fold distinctKeys_bump)

lemma processed_iff:
  "m \<in> set (processed e fileContents) \<longleftrightarrow> (\<exists>c \<in> set fileContents. analyzeChatLog e c = Inr m)"
  by (induction fileContents) (auto simp: processed_def split: sum.splits)

lemma processed_analyzed:
  assumes "m \<in> set (processed e fileContents)"
  shows "\<exists>messages. m = analyzeMessages (newDate e) messages"
proof -
  obtain c where "analyzeChatLog e c = Inr m"
    using assms unfolding processed_iff by blast
  then show ?thesis
    by (cases "messagesOf e c") (auto simp: analyzeChatLog_def)
qed

lemma processed_distinctKeys:
  assumes "m \<in> set (processed e fileContents)"
  shows "distinctKeys (messagesByUser m)" "distinctKeys (reactionsByUser m)"
    "distinctKeys (messagesByHour m)" "distinctKeys (messagesByDayOfWeek m)"
    "distinctKeys (messagesByDate m)" "distinctKeys (topWords m)" "distinctKeys (topMentions m)"
proof -
  obtain messages where m: "m = analyzeMessages (newDate e) messages"
    using processed_analyzed [OF assms] by blast
  show "distinctKeys (messagesByUser m)" "distinctKeys (reactionsByUser m)"
    "distinctKeys (messagesByHour m)" "distinctKeys (messagesByDayOfWeek m)"
    "distinctKeys (messagesByDate m)" "distinctKeys (topWords m)" "distinctKeys (topMentions m)"
    unfolding m analyzeMessages_def Let_def
    by (simp_all add: distinctKeys_userCounts distinctKeys_reactionCounts distinctKeys_hourCounts
        distinctKeys_dayOfWeekCounts distinctKeys_dateCounts distinctKeys_wordFrequency
        distinctKeys_mentions distinctKeys_take distinctKeys_sortDesc distinctKeys_entries)
qed

text \<open>The first \<open>n\<close> entries of the ranking of a counter that was merged from several.\<close>

lemma top_of_merged:
  fixes f :: "metrics \<Rightarrow> counter" and ms :: "metrics list" and n :: nat
  assumes dk: "\<And>m. m \<in> set ms \<Longrightarrow> distinctKeys (f m)"
  defines "obj \<equiv> fold (\<lambda>m obj. mergeCounts (f m) obj) ms []"
  defines "ranking \<equiv> take n (sortDesc (entries obj))"
  shows "length ranking \<le> n" "descending ranking" "distinctKeys ranking"
    "\<And>k c. (k, c) \<in> set ranking \<Longrightarrow> c = totalOver f ms k"
    "\<And>k. k \<in> (\<Union>m \<in> set ms. keySet (f m)) \<Longrightarrow> k \<notin> keySet ranking
        \<Longrightarrow> length ranking = n \<and> (\<forall>(k', c') \<in> set ranking. totalOver f ms k \<le> c')"
proof -
  have dobj: "distinctKeys obj"
    unfolding obj_def by (rule distinctKeys_fold_mergeCounts) simp
  have total: "countOf obj k = totalOver f ms k" for k
  proof -
    have "sum_list (map (\<lambda>m. sumFor (f m) k) ms) = sum_list (map (\<lambda>m. countOf (f m) k) ms)"
      by (rule arg_cong [where f = sum_list], rule map_cong [OF refl]) (simp add: sumFor_countOf dk)
    then show ?thesis
      unfolding obj_def totalOver_def by (simp add: countOf_fold_mergeCounts)
  qed
  show "length ranking \<le> n" by (simp add: ranking_def)
  show "descending ranking" unfolding ranking_def by (intro descending_take descending_sortDesc)
  show "distinctKeys ranking"
    unfolding ranking_def by (intro distinctKeys_take distinctKeys_sortDesc distinctKeys_entries dobj)
  show "c = totalOver f ms k" if "(k, c) \<in> set ranking" for k c
  proof -
    from that have "(k, c) \<in> set obj"
      unfolding ranking_def by (auto dest: in_set_takeD)
    then show ?thesis using countOf_member [OF dobj] total by metis
  qed
  show "length ranking = n \<and> (\<forall>(k', c') \<in> set ranking. totalOver f ms k \<le> c')"
    if k: "k \<in> (\<Union>m \<in> set ms. keySet (f m))" and out: "k \<notin> keySet ranking" for k
  proof -
    let ?ranked = "sortDesc (entries obj)"
    from k have "k \<in> keySet obj"
      unfolding obj_def by (simp add: keySet_fold_mergeCounts)
    then obtain c where c: "(k, c) \<in> set obj" unfolding keySet_def by auto
    then have "(k, c) \<in> set (take n ?ranked @ drop n ?ranked)" by simp
    moreover have "(k, c) \<notin> set (take n ?ranked)"
      using out keySet_member unfolding ranking_def by metis
    ultimately have d: "(k, c) \<in> set (drop n ?ranked)" by (metis Un_iff set_append)
    then have "n < length ?ranked" by (cases "n < length ?ranked") auto
    then have "length ranking = n" by (simp add: ranking_def)
    moreover have "snd (k, c) \<le> snd p" if "p \<in> set ranking" for p
      by (rule descending_cut [OF descending_sortDesc _ d]) (use that in \<open>simp add: ranking_def\<close>)
    moreover have "c = totalOver f ms k" using countOf_member [OF dobj c] total by metis
    ultimately show ?thesis by auto
  qed
qed

lemma countOf_fold_bump:
  "countOf (fold (\<lambda>x obj. bump x n obj) xs obj) k = countOf obj k + n * count_list xs k"
  by (induction xs arbitrary: obj) (auto simp: countOf_bump)

lemma keySet_fold_bump:
  "keySet (fold (\<lambda>x obj. bump x n obj) xs obj) = keySet obj \<union> set xs"
  by (induction xs arbitrary: obj) (auto simp: keySet_bump)

lemma mentions_fold:
  "fold (\<lambda>msg ms. case textElem msg of None \<Rightarrow> ms
            | Some t \<Rightarrow> fold (\<lambda>mention ms. bump mention 1 ms) (mentionMatches (trim t)) ms) ums obj
   = fold (\<lambda>x obj. bump x 1 obj)
       (concat (map (\<lambda>msg. case textElem msg of None \<Rightarrow> [] | Some t \<Rightarrow> mentionMatches (trim t)) ums)) obj"
  by (induction ums arbitrary: obj) (auto split: option.splits)

lemma mentions_tokens:
  "mentions (userMessageElems messages) = fold (\<lambda>x obj. bump x 1 obj) (mentionTokens messages) []"
  unfolding mentions_def mentionTokens_def by (rule mentions_fold)

lemma countOf_mentions: "countOf (mentions (userMessageElems messages)) k = count_list (mentionTokens messages) k"
  by (simp add: mentions_tokens countOf_fold_bump)

lemma keySet_mentions: "keySet (mentions (userMessageElems messages)) = set (mentionTokens messages)"
  by (simp add: mentions_tokens keySet_fold_bump)

lemma totalOver_entries:
  assumes "\<And>m. m \<in> set ms \<Longrightarrow> distinctKeys (g m)"
  shows "totalOver (\<lambda>m. entries (g m)) ms k = totalOver g ms k"
  unfolding totalOver_def
  by (rule arg_cong [where f = sum_list], rule map_cong [OF refl]) (simp add: countOf_entries assms)

lemma merged_counter:
  fixes g :: "metrics \<Rightarrow> counter"
  assumes "\<And>m. m \<in> set ms \<Longrightarrow> distinctKeys (g m)"
  shows "countOf (fold (\<lambda>m obj. mergeCounts (entries (g m)) obj) ms []) k = totalOver g ms k"
    and "keySet (fold (\<lambda>m obj. mergeCounts (entries (g m)) obj) ms []) = (\<Union>m \<in> set ms. keySet (g m))"
proof -
  have "sum_list (map (\<lambda>m. sumFor (entries (g m)) k) ms) = sum_list (map (\<lambda>m. countOf (g m) k) ms)"
    by (rule arg_cong [where f = sum_list], rule map_cong [OF refl])
       (simp add: sumFor_countOf distinctKeys_entries countOf_entries assms)
  then show "countOf (fold (\<lambda>m obj. mergeCounts (entries (g m)) obj) ms []) k = totalOver g ms k"
    by (simp add: countOf_fold_mergeCounts totalOver_def)
  show "keySet (fold (\<lambda>m obj. mergeCounts (entries (g m)) obj) ms []) = (\<Union>m \<in> set ms. keySet (g m))"
    by (simp add: keySet_fold_mergeCounts)
qed

section \<open>Sets in insertion order\<close>

lemma set_firstSeen [simp]: "set (firstSeen xs) = set xs"
  by (induction xs) auto

lemma distinct_firstSeen [simp]: "distinct (firstSeen xs)"
  by (induction xs) (auto simp: distinct_removeAll)

lemma setAdd_old: "x \<in> set xs \<Longrightarrow> setAdd x xs = xs"
  and setAdd_new: "x \<notin> set xs \<Longrightarrow> setAdd x xs = xs @ [x]"
  by (simp_all add: setAdd_def)

lemma fold_setAdd: "fold setAdd xs acc = acc @ filter (\<lambda>x. x \<notin> set acc) (firstSeen xs)"
proof (induction xs arbitrary: acc)
  case Nil
  then show ?case by simp
next
  case (Cons x xs)
  show ?case
  proof (cases "x \<in> set acc")
    case True
    then have "filter (\<lambda>y. y \<notin> set acc) (removeAll x (firstSeen xs))
        = filter (\<lambda>y. y \<notin> set acc) (firstSeen xs)"
      by (auto simp: removeAll_filter_not_eq intro: filter_cong)
    with True show ?thesis by (simp add: setAdd_old Cons.IH)
  next
    case False
    have "filter (\<lambda>y. y \<noteq> x \<and> y \<notin> set acc) (firstSeen xs)
        = filter (\<lambda>y. y \<notin> set acc) (removeAll x (firstSeen xs))"
      by (auto simp: removeAll_filter_not_eq intro: filter_cong)
    with False show ?thesis by (simp add: setAdd_new Cons.IH)
  qed
qed

lemma fold_setAdd_Nil: "fold setAdd xs [] = firstSeen xs"
  by (simp add: fold_setAdd)

lemma addLinks_fold:
  "addLinks hrefs ls
   = fold setAdd (concat (map (\<lambda>href. case href of None \<Rightarrow> []
                    | Some h \<Rightarrow> if h \<noteq> [] \<and> \<not> startsWith h ''@'' then [h] else []) hrefs)) ls"
  unfolding addLinks_def
  by (induction hrefs arbitrary: ls) (auto split: option.splits)

lemma links_fold:
  "fold (\<lambda>msg ls. case textElem msg of None \<Rightarrow> ls | Some t \<Rightarrow> addLinks (anchors msg) ls) ums ls
   = fold setAdd (concat (map linkTargets (filter (\<lambda>msg. textElem msg \<noteq> None) ums))) ls"
  by (induction ums arbitrary: ls) (auto simp: addLinks_fold linkTargets_def split: option.splits)

lemma links_firstSeen: "links (userMessageElems messages) = firstSeen (linkStream messages)"
  by (simp add: links_def linkStream_def links_fold fold_setAdd_Nil)

section \<open>Sender names\<close>

lemma length_distinctKeys: "distinctKeys obj \<Longrightarrow> length obj = card (keySet obj)"
  unfolding distinctKeys_def keySet_def by (metis distinct_card length_map set_map)

lemma userCounts_fold:
  "fold (\<lambda>msg uc. case fromName msg of None \<Rightarrow> uc | Some t \<Rightarrow> bump (trim t) 1 uc) ums obj
   = fold (\<lambda>x obj. bump x 1 obj)
       (concat (map (\<lambda>msg. case fromName msg of None \<Rightarrow> [] | Some t \<Rightarrow> [trim t]) ums)) obj"
  by (induction ums arbitrary: obj) (auto split: option.splits)

lemma userCounts_names:
  "userCounts (userMessageElems messages) = fold (\<lambda>x obj. bump x 1 obj) (senderNames messages) []"
  unfolding userCounts_def senderNames_def by (rule userCounts_fold)

lemma keySet_reactionCounts_fold:
  "keySet (fold (\<lambda>msg rc. case fromName msg of None \<Rightarrow> rc
                    | Some t \<Rightarrow> if 0 < reactions msg then bump (trim t) (reactions msg) rc
                                else rc) ums obj)
   \<subseteq> keySet obj \<union> set (concat (map (\<lambda>msg. case fromName msg of None \<Rightarrow> [] | Some t \<Rightarrow> [trim t]) ums))"
proof (induction ums arbitrary: obj)
  case Nil
  then show ?case by simp
next
  case (Cons msg ums)
  show ?case
    using Cons.IH [of obj] Cons.IH [of "bump (trim (the (fromName msg))) (reactions msg) obj"]
    by (auto simp: keySet_bump split: option.splits)
qed

lemma keySet_reactionCounts:
  "keySet (reactionCounts (userMessageElems messages)) \<subseteq> set (senderNames messages)"
  unfolding reactionCounts_def senderNames_def
  using keySet_reactionCounts_fold [of "userMessageElems messages" "[]"] by simp

section \<open>Hours\<close>

lemma splitChar_head:
  "splitChar sep s cur \<noteq> [] \<and> hd (splitChar sep s cur) = rev cur @ takeWhile (\<lambda>c. c \<noteq> sep) s"
  by (induction s arbitrary: cur) simp_all

lemma splitOn_head:
  "(case splitOn sep s of p # _ \<Rightarrow> g p | [] \<Rightarrow> d) = g (takeWhile (\<lambda>c. c \<noteq> sep) s)"
  using splitChar_head [of sep s "[]"] by (cases "splitChar sep s []") (simp_all add: splitOn_def)

lemma hourOf_leadingHour:
  "hourOf msg =
     (case dateDetails msg of None \<Rightarrow> None
      | Some d \<Rightarrow> (case title d of None \<Rightarrow> None
                  | Some t \<Rightarrow> if t = [] then None else leadingHour (dateText d)))"
  by (simp add: hourOf_def fullDateOf_def leadingHour_def splitOn_head Let_def split: option.splits)

lemma hourCounts_fold:
  "fold (\<lambda>msg hc. case hourOf msg of None \<Rightarrow> hc
                    | Some hour \<Rightarrow> bump (numberToString hour) 1 hc) messages obj
   = fold (\<lambda>x obj. bump x 1 obj)
       (concat (map (\<lambda>msg. case hourOf msg of None \<Rightarrow> [] | Some h \<Rightarrow> [numberToString h]) messages)) obj"
  by (induction messages arbitrary: obj) (auto split: option.splits)

lemma hourKeys_hourOf:
  "hourKeys messages
   = concat (map (\<lambda>msg. case hourOf msg of None \<Rightarrow> [] | Some h \<Rightarrow> [numberToString h]) messages)"
  unfolding hourKeys_def
  by (rule arg_cong [where f = concat], rule map_cong [OF refl])
     (simp add: hourOf_leadingHour split: option.splits)

lemma hourCounts_keys: "hourCounts messages = fold (\<lambda>x obj. bump x 1 obj) (hourKeys messages) []"
  by (simp add: hourCounts_def hourCounts_fold hourKeys_hourOf)

lemma withTimeText_fields [simp]:
  "isDefault (withTimeText f msg) = isDefault msg"
  "isService (withTimeText f msg) = isService msg"
  "fromName (withTimeText f msg) = fromName msg"
  "bodyDetails (withTimeText f msg) = bodyDetails msg"
  "textElem (withTimeText f msg) = textElem msg"
  "reactions (withTimeText f msg) = reactions msg"
  "anchors (withTimeText f msg) = anchors msg"
  "replyTo (withTimeText f msg) = replyTo msg"
  "fullDateOf (withTimeText f msg) = fullDateOf msg"
  by (simp_all add: withTimeText_def fullDateOf_def split: option.splits)

lemma userMessageElems_withTimeText:
  "userMessageElems (map (withTimeText f) messages) = map (withTimeText f) (userMessageElems messages)"
  by (simp add: userMessageElems_def filter_map comp_def)

lemma serviceMessageElems_withTimeText:
  "serviceMessageElems (map (withTimeText f) messages) = map (withTimeText f) (serviceMessageElems messages)"
  by (simp add: serviceMessageElems_def filter_map comp_def)

lemma others_withTimeText:
  "userCounts (map (withTimeText f) ms) = userCounts ms"
  "reactionCounts (map (withTimeText f) ms) = reactionCounts ms"
  "userDates nd (map (withTimeText f) ms) = userDates nd ms"
  "userTypeTags (map (withTimeText f) ms) = userTypeTags ms"
  "dayOfWeekCounts nd (map (withTimeText f) ms) = dayOfWeekCounts nd ms"
  "dateCounts nd (map (withTimeText f) ms) = dateCounts nd ms"
  "dates (map (withTimeText f) ms) = dates ms"
  "messageLengths (map (withTimeText f) ms) = messageLengths ms"
  "wordFrequency (map (withTimeText f) ms) = wordFrequency ms"
  "mentions (map (withTimeText f) ms) = mentions ms"
  "links (map (withTimeText f) ms) = links ms"
  "replyChains (map (withTimeText f) ms) = replyChains ms"
  by (simp_all add: userCounts_def reactionCounts_def userDates_def userTypeTags_def
      dayOfWeekCounts_def dateCounts_def dates_def messageLengths_def wordFrequency_def
      mentions_def links_def replyChains_def fold_map comp_def cong: option.case_cong if_cong)

lemma analyzeMessages_withTimeText:
  "analyzeMessages nd (map (withTimeText f) messages)
   = (analyzeMessages nd messages) \<lparr> messagesByHour := hourCounts (map (withTimeText f) messages) \<rparr>"
  by (simp add: analyzeMessages_def Let_def userMessageElems_withTimeText
      serviceMessageElems_withTimeText others_withTimeText)

section \<open>The order of ties\<close>

lemma subseq_pair_nth: "i < j \<Longrightarrow> j < length xs \<Longrightarrow> subseq [xs ! i, xs ! j] xs"
proof (induction xs arbitrary: i j)
  case Nil
  then show ?case by simp
next
  case (Cons x xs)
  from Cons.prems obtain j' where j: "j = Suc j'" "j' < length xs" by (cases j) auto
  show ?case
  proof (cases i)
    case 0
    have "subseq [xs ! j'] xs" using j(2) by (simp add: subseq_singleton_left)
    then show ?thesis using 0 j by simp
  next
    case (Suc i')
    with Cons.prems j have "subseq [xs ! i', xs ! j'] xs" by (intro Cons.IH) auto
    then show ?thesis using Suc j by (simp add: subseq_Cons')
  qed
qed

lemma subseq_pair_firstSeen:
  "subseq [a, b] (firstSeen xs) \<Longrightarrow> a \<noteq> b \<Longrightarrow> firstBefore xs a b"
proof (induction xs)
  case Nil
  then show ?case by simp
next
  case (Cons x xs)
  have rm: "removeAll x (firstSeen xs) = filter (\<lambda>y. y \<noteq> x) (firstSeen xs)"
    by (simp add: removeAll_filter_not_eq) (metis)
  show ?case
  proof (cases "x = b")
    case True
    with Cons.prems have "subseq [a, b] (removeAll b (firstSeen xs))" by simp
    then have "b \<in> set (removeAll b (firstSeen xs))"
      by (metis list.set_intros(1,2) subseq_order.dual_order.trans subseq_singleton_left subseq_Cons2_iff
          list_emb_Cons subseq_order.order_refl list_emb_set)
    then show ?thesis by simp
  next
    case False
    show ?thesis
    proof (cases "x = a")
      case True
      with \<open>x \<noteq> b\<close> show ?thesis by (simp add: firstBefore_def)
    next
      case xa: False
      with Cons.prems have "subseq [a, b] (removeAll x (firstSeen xs))" by simp
      then have "subseq [a, b] (firstSeen xs)"
        unfolding rm by (metis subseq_filter_left subseq_order.order_trans)
      then have "firstBefore xs a b" using Cons.prems(2) by (rule Cons.IH)
      with False show ?thesis by (simp add: firstBefore_def)
    qed
  qed
qed

lemma map_fst_bump_setAdd: "map fst (bump k n obj) = setAdd k (map fst obj)"
  by (simp add: map_fst_bump setAdd_def)

lemma map_fst_fold_bump:
  "map fst (fold (\<lambda>x obj. bump x n obj) xs obj) = fold setAdd xs (map fst obj)"
  by (induction xs arbitrary: obj) (simp_all add: map_fst_bump_setAdd)

lemma map_fst_mergeCounts:
  "map fst (mergeCounts es obj) = fold setAdd (map fst es) (map fst obj)"
  unfolding mergeCounts_def
  by (induction es arbitrary: obj) (simp_all add: map_fst_bump_setAdd split: prod.splits)

lemma map_fst_fold_mergeCounts:
  "map fst (fold (\<lambda>m obj. mergeCounts (f m) obj) ms obj)
   = fold setAdd (concat (map (\<lambda>m. map fst (f m)) ms)) (map fst obj)"
  by (induction ms arbitrary: obj) (simp_all add: map_fst_mergeCounts)

text \<open>Ties in a ranking keep the order of the counter, among the keys that are not array
  indices.\<close>

lemma ranking_ties:
  fixes obj :: counter and n :: nat
  defines "r \<equiv> take n (sortDesc (entries obj))"
  assumes dk: "distinctKeys obj"
    and ij: "i < j" "j < length r"
    and tie: "snd (r ! i) = snd (r ! j)"
    and ni: "\<not> isArrayIndex (fst (r ! i))" "\<not> isArrayIndex (fst (r ! j))"
  shows "subseq [fst (r ! i), fst (r ! j)] (map fst obj)" "fst (r ! i) \<noteq> fst (r ! j)"
proof -
  let ?p = "r ! i" and ?q = "r ! j"
  let ?c = "- int (snd ?p)"
  let ?key = "\<lambda>e :: string \<times> nat. - int (snd e)"
  let ?plain = "\<lambda>e :: string \<times> nat. \<not> isArrayIndex (fst e)"
  have sd: "sortDesc es = sort_key ?key es" for es
    by (simp add: sortDesc_def case_prod_beta')
  have en: "entries obj = sort_key (\<lambda>e. digitsValue 10 (fst e)) (filter (\<lambda>e. isArrayIndex (fst e)) obj)
      @ filter ?plain obj"
    by (simp add: entries_def case_prod_beta')
  have "subseq [?p, ?q] r" using ij by (rule subseq_pair_nth)
  also have "subseq r (sortDesc (entries obj))"
    unfolding r_def by (rule prefix_imp_subseq [OF take_is_prefix])
  finally have "subseq [?p, ?q] (sortDesc (entries obj))" .
  then have "subseq (filter (\<lambda>e. ?key e = ?c) [?p, ?q]) (filter (\<lambda>e. ?key e = ?c) (sortDesc (entries obj)))"
    by (rule subseq_filter)
  moreover have "filter (\<lambda>e. ?key e = ?c) [?p, ?q] = [?p, ?q]"
    using tie by simp
  moreover have "filter (\<lambda>e. ?key e = ?c) (sortDesc (entries obj)) = filter (\<lambda>e. ?key e = ?c) (entries obj)"
    unfolding sd by (rule sort_key_stable)
  ultimately have "subseq [?p, ?q] (filter (\<lambda>e. ?key e = ?c) (entries obj))" by simp
  then have "subseq [?p, ?q] (entries obj)"
    by (metis subseq_filter_left subseq_order.order_trans)
  then have "subseq (filter ?plain [?p, ?q]) (filter ?plain (entries obj))"
    by (rule subseq_filter)
  moreover have "filter ?plain [?p, ?q] = [?p, ?q]"
    using ni by simp
  moreover have "filter ?plain (entries obj) = filter ?plain obj"
  proof -
    have "filter ?plain (sort_key (\<lambda>e. digitsValue 10 (fst e)) (filter (\<lambda>e. isArrayIndex (fst e)) obj)) = []"
      by (auto simp: filter_empty_conv)
    then show ?thesis by (simp add: en)
  qed
  ultimately have "subseq [?p, ?q] (filter ?plain obj)" by simp
  then have sub: "subseq [?p, ?q] obj"
    by (metis subseq_filter_left subseq_order.order_trans)
  then have "subseq (map fst [?p, ?q]) (map fst obj)" by (rule subseq_map)
  then have keys: "subseq [fst ?p, fst ?q] (map fst obj)" by simp
  then show "subseq [fst ?p, fst ?q] (map fst obj)" .
  from keys have "[fst ?p, fst ?q] \<in> set (subseqs (map fst obj))"
    by (simp only: in_set_subseqs)
  moreover have "distinct (map fst obj)"
    using dk by (simp only: distinctKeys_def)
  ultimately have "distinct [fst ?p, fst ?q]"
    by (rule subseqs_distinctD)
  then show "fst ?p \<noteq> fst ?q" by simp
qed

section \<open>Word frequencies\<close>

lemma countWords_fold:
  "countWords ws freq = fold (\<lambda>x obj. bump x 1 obj) (filter (\<lambda>word. 3 < length word) ws) freq"
  unfolding countWords_def by (induction ws arbitrary: freq) simp_all

lemma wordFrequency_fold:
  "fold (\<lambda>msg freq. case textElem msg of None \<Rightarrow> freq
            | Some t \<Rightarrow> countWords (splitWhitespace (toLowerCase (trim t))) freq) ums obj
   = fold (\<lambda>x obj. bump x 1 obj)
       (concat (map (\<lambda>msg. case textElem msg of None \<Rightarrow> []
                   | Some t \<Rightarrow> filter (\<lambda>word. 3 < length word)
                                     (splitWhitespace (toLowerCase (trim t)))) ums)) obj"
  by (induction ums arbitrary: obj) (auto simp: countWords_fold split: option.splits)

lemma wordFrequency_tokens:
  "wordFrequency (userMessageElems messages) = fold (\<lambda>x obj. bump x 1 obj) (wordTokens messages) []"
  unfolding wordFrequency_def wordTokens_def by (rule wordFrequency_fold)

lemma wordTokens_long: "word \<in> set (wordTokens messages) \<Longrightarrow> 3 < length word"
  by (auto simp: wordTokens_def split: option.splits)

lemma keys_wordFrequency:
  "map fst (wordFrequency (userMessageElems messages)) = firstSeen (wordTokens messages)"
  by (simp add: wordFrequency_tokens map_fst_fold_bump fold_setAdd_Nil)

lemma topWords_doc:
  fixes nd messages
  defines "r \<equiv> topWords (analyzeMessages nd messages)"
  shows "length r \<le> 50" "descending r"
    "\<And>word count. (word, count) \<in> set r
        \<Longrightarrow> 3 < length word \<and> count = count_list (wordTokens messages) word"
    "\<And>i j. i < j \<Longrightarrow> j < length r \<Longrightarrow> snd (r ! i) = snd (r ! j)
        \<Longrightarrow> \<not> isArrayIndex (fst (r ! i)) \<Longrightarrow> \<not> isArrayIndex (fst (r ! j))
        \<Longrightarrow> firstBefore (wordTokens messages) (fst (r ! i)) (fst (r ! j))"
proof -
  let ?obj = "wordFrequency (userMessageElems messages)"
  have r: "r = take 50 (sortDesc (entries ?obj))"
    by (simp add: r_def analyzeMessages_def Let_def)
  have dk: "distinctKeys ?obj" by (rule distinctKeys_wordFrequency)
  show "length r \<le> 50" by (simp add: r)
  show "descending r" unfolding r by (intro descending_take descending_sortDesc)
  show "3 < length word \<and> count = count_list (wordTokens messages) word"
    if "(word, count) \<in> set r" for word count
  proof -
    from that have m: "(word, count) \<in> set ?obj"
      unfolding r by (auto dest: in_set_takeD)
    then have "word \<in> set (map fst ?obj)" by force
    then have "3 < length word"
      unfolding keys_wordFrequency by (simp add: wordTokens_long)
    moreover have "countOf ?obj word = count" using dk m by (rule countOf_member)
    then have "count = count_list (wordTokens messages) word"
      by (simp add: wordFrequency_tokens countOf_fold_bump)
    ultimately show ?thesis by simp
  qed
  show "firstBefore (wordTokens messages) (fst (r ! i)) (fst (r ! j))"
    if "i < j" "j < length r" "snd (r ! i) = snd (r ! j)"
      "\<not> isArrayIndex (fst (r ! i))" "\<not> isArrayIndex (fst (r ! j))" for i j
  proof -
    note t = ranking_ties [OF dk, of i j 50, folded r, OF that]
    from t(1) have "subseq [fst (r ! i), fst (r ! j)] (firstSeen (wordTokens messages))"
      by (simp only: keys_wordFrequency)
    then show ?thesis using t(2) by (rule subseq_pair_firstSeen)
  qed
qed

lemma topWords_batch:
  fixes e fileContents
  defines "r \<equiv> agg_topWords (aggregateMetrics e fileContents)"
  shows "length r \<le> 50" "descending r"
    "\<And>word count. (word, count) \<in> set r \<Longrightarrow> 3 < length word"
    "\<And>i j. i < j \<Longrightarrow> j < length r \<Longrightarrow> snd (r ! i) = snd (r ! j)
        \<Longrightarrow> \<not> isArrayIndex (fst (r ! i)) \<Longrightarrow> \<not> isArrayIndex (fst (r ! j))
        \<Longrightarrow> firstBefore (concat (map (\<lambda>m. map fst (topWords m)) (processed e fileContents)))
              (fst (r ! i)) (fst (r ! j))"
proof -
  let ?ms = "processed e fileContents"
  let ?obj = "fold (\<lambda>m obj. mergeCounts (topWords m) obj) ?ms []"
  have r: "r = take 50 (sortDesc (entries ?obj))"
    by (simp add: r_def aggregateMetrics_def result_def aggregateLoop_fold fold_merge_wordFrequency
        initialAggregated_def)
  have dk: "distinctKeys ?obj" by (rule distinctKeys_fold_mergeCounts) simp
  have keys: "map fst ?obj = firstSeen (concat (map (\<lambda>m. map fst (topWords m)) ?ms))"
    by (simp add: map_fst_fold_mergeCounts fold_setAdd_Nil)
  show "length r \<le> 50" by (simp add: r)
  show "descending r" unfolding r by (intro descending_take descending_sortDesc)
  show "3 < length word" if "(word, count) \<in> set r" for word count
  proof -
    from that have "(word, count) \<in> set ?obj"
      unfolding r by (auto dest: in_set_takeD)
    then have "word \<in> keySet ?obj" by (rule keySet_member)
    then obtain m where m: "m \<in> set ?ms" "word \<in> keySet (topWords m)"
      by (auto simp: keySet_fold_mergeCounts)
    from m(1) obtain messages where "m = analyzeMessages (newDate e) messages"
      using processed_analyzed by blast
    with m(2) obtain c where "(word, c) \<in> set (topWords (analyzeMessages (newDate e) messages))"
      by (auto simp: keySet_def)
    then show ?thesis using topWords_doc(3) by blast
  qed
  show "firstBefore (concat (map (\<lambda>m. map fst (topWords m)) ?ms)) (fst (r ! i)) (fst (r ! j))"
    if "i < j" "j < length r" "snd (r ! i) = snd (r ! j)"
      "\<not> isArrayIndex (fst (r ! i))" "\<not> isArrayIndex (fst (r ! j))" for i j
  proof -
    note t = ranking_ties [OF dk, of i j 50, folded r, OF that]
    from t(1) have "subseq [fst (r ! i), fst (r ! j)]
        (firstSeen (concat (map (\<lambda>m. map fst (topWords m)) ?ms)))"
      by (simp only: keys)
    then show ?thesis using t(2) by (rule subseq_pair_firstSeen)
  qed
qed

section \<open>The fields of the aggregated result\<close>




section \<open>Documents that fail\<close>

text \<open>
  Claim C3. A document for which \<open>analyzeChatLog\<close> throws is skipped and the loop goes on:
  the result of a batch is the result of the batch without its failing documents, and the
  message counts are the sums over the documents that were processed. A batch in which
  every document fails or has no message, the empty batch among them, returns the zeroed
  result; \<open>aggregateMetrics\<close> has no failing outcome.
\<close>

theorem failed_documents_skipped:
  "aggregateMetrics e fileContents = aggregateMetrics e (filter (succeeds e) fileContents)
   \<and> agg_totalMessages (aggregateMetrics e fileContents)
       = sum_list (map totalMessages (processed e fileContents))
   \<and> agg_userMessages (aggregateMetrics e fileContents)
       = sum_list (map userMessages (processed e fileContents))
   \<and> agg_serviceMessages (aggregateMetrics e fileContents)
       = sum_list (map serviceMessages (processed e fileContents))
   \<and> ((\<forall>content \<in> set fileContents. \<not> succeeds e content \<or> messagesOf e content = Inr [])
        \<longrightarrow> aggregateMetrics e fileContents = zeroedMetrics)
   \<and> aggregateMetrics e [] = zeroedMetrics"
proof -
  have skip: "aggregateMetrics e fileContents = aggregateMetrics e (filter (succeeds e) fileContents)"
    by (simp add: aggregateMetrics_def aggregateLoop_fold processed_filter)
  have scalars: "agg_totalMessages (aggregateMetrics e fileContents)
       = sum_list (map totalMessages (processed e fileContents))"
    "agg_userMessages (aggregateMetrics e fileContents)
       = sum_list (map userMessages (processed e fileContents))"
    "agg_serviceMessages (aggregateMetrics e fileContents)
       = sum_list (map serviceMessages (processed e fileContents))"
    by (simp_all add: aggregateMetrics_def result_def aggregateLoop_fold fold_merge_scalars
        initialAggregated_def)
  have zero: "aggregateMetrics e fileContents = zeroedMetrics"
    if h: "\<forall>content \<in> set fileContents. \<not> succeeds e content \<or> messagesOf e content = Inr []"
  proof -
    have "aggregateLoop e fileContents a = a" for a
      using h
    proof (induction fileContents arbitrary: a)
      case Nil
      then show ?case by simp
    next
      case (Cons c cs)
      then have rest: "aggregateLoop e cs a = a" for a by simp
      from Cons.prems have "\<not> succeeds e c \<or> messagesOf e c = Inr []" by simp
      then show ?case
      proof
        assume "\<not> succeeds e c"
        then show ?thesis by (auto simp: succeeds_def rest split: sum.splits)
      next
        assume "messagesOf e c = Inr []"
        then show ?thesis by (simp add: analyzeChatLog_def mergeMetrics_empty rest)
      qed
    qed
    then show ?thesis by (simp add: aggregateMetrics_def result_initial)
  qed
  have none: "aggregateMetrics e [] = zeroedMetrics"
    by (simp add: aggregateMetrics_def result_initial)
  from skip scalars zero none show ?thesis by blast
qed

theorem failed_documents_skipped_witness:
  "\<not> succeeds faultyEnv ''bad'' \<and> messagesOf faultyEnv '''' = Inr []
   \<and> aggregateMetrics faultyEnv ['''', ''bad''] = zeroedMetrics
   \<and> aggregateMetrics faultyEnv [''bad'', ''ok'', '''', ''bad'']
       = aggregateMetrics faultyEnv [''ok'', '''']
   \<and> agg_totalMessages (aggregateMetrics faultyEnv [''bad'', ''ok'', '''', ''bad'']) = 3"
proof -
  have bad: "\<not> succeeds faultyEnv ''bad''"
    by (simp add: succeeds_def analyzeChatLog_def faultyEnv_def)
  have empty: "messagesOf faultyEnv '''' = Inr []"
    by (simp add: faultyEnv_def)
  have ok: "succeeds faultyEnv ''ok''" "succeeds faultyEnv ''''"
    by (simp_all add: succeeds_def analyzeChatLog_def faultyEnv_def)
  have hyp: "\<forall>content \<in> set ['''', ''bad'']. \<not> succeeds faultyEnv content \<or> messagesOf faultyEnv content = Inr []"
    using bad empty by simp
  have z: "aggregateMetrics faultyEnv ['''', ''bad''] = zeroedMetrics"
    using failed_documents_skipped [of faultyEnv "['''', ''bad'']"] hyp by blast
  have f: "filter (succeeds faultyEnv) [''bad'', ''ok'', '''', ''bad''] = [''ok'', '''']"
    using bad ok by simp
  have s: "aggregateMetrics faultyEnv [''bad'', ''ok'', '''', ''bad'']
       = aggregateMetrics faultyEnv [''ok'', '''']"
    using failed_documents_skipped [of faultyEnv "[''bad'', ''ok'', '''', ''bad'']"]
    unfolding f by blast
  have "agg_totalMessages (aggregateMetrics faultyEnv [''ok'', '''']) = 3"
    by code_simp
  with s have t: "agg_totalMessages (aggregateMetrics faultyEnv [''bad'', ''ok'', '''', ''bad'']) = 3"
    by simp
  from bad empty z s t show ?thesis by (intro conjI)
qed

section \<open>The pooled mean of the message lengths\<close>



section \<open>Unique users\<close>




section \<open>The hour buckets\<close>




section \<open>The most active and the most reacted-to users\<close>



section \<open>The links of a document and of a batch\<close>

text \<open>
  Claim C9, as the code has it. A link inside a user message that has no text element is
  not collected: the loop reads the anchors of a message only after it has found the
  message's \<open>.text\<close> element.
\<close>

theorem uniqueLinks_counterexample:
  "isDefault mediaMessage
   \<and> Some ''https://example.org/a'' \<in> set (anchors mediaMessage)
   \<and> \<not> startsWith ''https://example.org/a'' ''@''
   \<and> ''https://example.org/a'' \<notin> set (uniqueLinks (analyzeMessages noDates [mediaMessage]))"
  by (simp add: mediaMessage_def startsWith_def analyzeMessages_def Let_def userMessageElems_def links_def)

text \<open>
  Claim C9, amended. \<open>uniqueLinks\<close> has no duplicates and keeps the order of first occurrence,
  in a document and, over the documents in their order, in a batch. In a document it holds
  the \<open>href\<close> values that are present, not empty and do not begin with \<open>@\<close> of the anchors
  of the user messages that have a text element, and nothing else; in a batch it holds the
  links of the processed documents.
\<close>

theorem uniqueLinks_first_seen:
  "uniqueLinks (analyzeMessages nd messages) = firstSeen (linkStream messages)
   \<and> distinct (uniqueLinks (analyzeMessages nd messages))
   \<and> set (uniqueLinks (analyzeMessages nd messages)) = set (linkStream messages)
   \<and> agg_uniqueLinks (aggregateMetrics e fileContents)
       = firstSeen (concat (map uniqueLinks (processed e fileContents)))
   \<and> distinct (agg_uniqueLinks (aggregateMetrics e fileContents))
   \<and> set (agg_uniqueLinks (aggregateMetrics e fileContents))
       = (\<Union>m \<in> set (processed e fileContents). set (uniqueLinks m))"
proof -
  have doc: "uniqueLinks (analyzeMessages nd messages) = firstSeen (linkStream messages)"
    by (simp add: analyzeMessages_def Let_def links_firstSeen)
  have agg: "agg_uniqueLinks (aggregateMetrics e fileContents)
       = firstSeen (concat (map uniqueLinks (processed e fileContents)))"
    by (simp add: aggregateMetrics_def result_def aggregateLoop_fold fold_merge_links
        initialAggregated_def fold_setAdd_Nil)
  show ?thesis unfolding doc agg by simp
qed

theorem uniqueLinks_first_seen_witness:
  "linkStream docL1 = [''https://b.example'', ''https://a.example'', ''https://b.example'']
   \<and> uniqueLinks (analyzeMessages noDates docL1) = [''https://b.example'', ''https://a.example'']
   \<and> map uniqueLinks (processed linksEnv [''L1'', ''L2''])
       = [[''https://b.example'', ''https://a.example''], [''https://c.example'', ''https://a.example'']]
   \<and> agg_uniqueLinks (aggregateMetrics linksEnv [''L1'', ''L2''])
       = [''https://b.example'', ''https://a.example'', ''https://c.example'']"
proof -
  note T = uniqueLinks_first_seen [of noDates docL1 linksEnv "[''L1'', ''L2'']"]
  have s: "linkStream docL1 = [''https://b.example'', ''https://a.example'', ''https://b.example'']"
    by code_simp
  have p: "map uniqueLinks (processed linksEnv [''L1'', ''L2''])
       = [[''https://b.example'', ''https://a.example''], [''https://c.example'', ''https://a.example'']]"
    by code_simp
  have d: "uniqueLinks (analyzeMessages noDates docL1) = [''https://b.example'', ''https://a.example'']"
    unfolding T [THEN conjunct1] s by simp
  have a: "agg_uniqueLinks (aggregateMetrics linksEnv [''L1'', ''L2''])
       = [''https://b.example'', ''https://a.example'', ''https://c.example'']"
    unfolding T [THEN conjunct2, THEN conjunct2, THEN conjunct2, THEN conjunct1] p by simp
  from s d p a show ?thesis by (intro conjI)
qed

section \<open>The aggregated mention ranking\<close>

text \<open>
  Claim C10. The \<open>topMentions\<close> of a batch has at most 20 entries, is descending by count,
  gives every mention it lists the sum of that mention's counts over the processed
  documents, and a mention that some processed document has and the list omits is omitted
  only when the list is full and no listed count is smaller than its sum. The per-document
  \<open>topMentions\<close> is not truncated: it lists every mention token of the document's user
  messages, once, with the number of its occurrences.
\<close>

theorem topMentions_top20:
  "length (agg_topMentions (aggregateMetrics e fileContents)) \<le> 20
   \<and> descending (agg_topMentions (aggregateMetrics e fileContents))
   \<and> (\<forall>(k, c) \<in> set (agg_topMentions (aggregateMetrics e fileContents)).
         c = totalOver topMentions (processed e fileContents) k)
   \<and> (\<forall>k \<in> (\<Union>m \<in> set (processed e fileContents). keySet (topMentions m)).
         k \<notin> keySet (agg_topMentions (aggregateMetrics e fileContents)) \<longrightarrow>
           length (agg_topMentions (aggregateMetrics e fileContents)) = 20
           \<and> (\<forall>(k', c') \<in> set (agg_topMentions (aggregateMetrics e fileContents)).
                 totalOver topMentions (processed e fileContents) k \<le> c'))
   \<and> (messagesOf e content = Inr messages \<longrightarrow>
         (\<exists>m. analyzeChatLog e content = Inr m
              \<and> descending (topMentions m)
              \<and> keySet (topMentions m) = set (mentionTokens messages)
              \<and> length (topMentions m) = card (set (mentionTokens messages))
              \<and> (\<forall>k. countOf (topMentions m) k = count_list (mentionTokens messages) k)))"
proof -
  let ?ms = "processed e fileContents"
  let ?top = "agg_topMentions (aggregateMetrics e fileContents)"
  have top: "?top = take 20 (sortDesc (entries (fold (\<lambda>m obj. mergeCounts (topMentions m) obj) ?ms [])))"
    by (simp add: aggregateMetrics_def result_def aggregateLoop_fold fold_merge_mentions
        initialAggregated_def)
  have dk: "\<And>m. m \<in> set ?ms \<Longrightarrow> distinctKeys (topMentions m)"
    by (rule processed_distinctKeys)
  note facts = top_of_merged [where ms = ?ms and f = topMentions and n = 20, OF dk, folded top]
  have doc: "\<exists>m. analyzeChatLog e content = Inr m
              \<and> descending (topMentions m)
              \<and> keySet (topMentions m) = set (mentionTokens messages)
              \<and> length (topMentions m) = card (set (mentionTokens messages))
              \<and> (\<forall>k. countOf (topMentions m) k = count_list (mentionTokens messages) k)"
    if "messagesOf e content = Inr messages"
  proof -
    let ?m = "analyzeMessages (newDate e) messages"
    let ?obj = "mentions (userMessageElems messages)"
    have tm: "topMentions ?m = sortDesc (entries ?obj)"
      by (simp add: analyzeMessages_def Let_def)
    have "length ?obj = card (keySet ?obj)"
      using distinctKeys_mentions [of "userMessageElems messages"]
      unfolding distinctKeys_def keySet_def
      by (metis distinct_card length_map set_map)
    then have "length (topMentions ?m) = card (set (mentionTokens messages))"
      by (simp add: tm keySet_mentions)
    moreover have "countOf (topMentions ?m) k = count_list (mentionTokens messages) k" for k
      by (simp add: tm countOf_sortDesc countOf_entries distinctKeys_entries distinctKeys_mentions
          countOf_mentions)
    moreover have "analyzeChatLog e content = Inr ?m"
      using that by (simp add: analyzeChatLog_def)
    ultimately show ?thesis
      by (simp add: tm descending_sortDesc keySet_mentions)
  qed
  have c3: "\<forall>(k, c) \<in> set ?top. c = totalOver topMentions ?ms k"
    using facts(4) by blast
  have c4: "\<forall>k \<in> (\<Union>m \<in> set ?ms. keySet (topMentions m)).
         k \<notin> keySet ?top \<longrightarrow>
           length ?top = 20 \<and> (\<forall>(k', c') \<in> set ?top. totalOver topMentions ?ms k \<le> c')"
    using facts(5) by blast
  have c5: "messagesOf e content = Inr messages \<longrightarrow>
         (\<exists>m. analyzeChatLog e content = Inr m
              \<and> descending (topMentions m)
              \<and> keySet (topMentions m) = set (mentionTokens messages)
              \<and> length (topMentions m) = card (set (mentionTokens messages))
              \<and> (\<forall>k. countOf (topMentions m) k = count_list (mentionTokens messages) k))"
    using doc by blast
  from facts(1) facts(2) c3 c4 c5 show ?thesis by (intro conjI)
qed

theorem topMentions_top20_witness:
  "messagesOf mentionsEnv ''M1'' = Inr docM1
   \<and> length (topMentions (analyzeMessages noDates docM1)) = 22
   \<and> agg_topMentions (aggregateMetrics mentionsEnv [''M1'', ''M2''])
       = [(''@v'', 3), (''@a'', 2), (''@b'', 1), (''@c'', 1), (''@d'', 1), (''@e'', 1), (''@f'', 1),
          (''@g'', 1), (''@h'', 1), (''@i'', 1), (''@j'', 1), (''@k'', 1), (''@l'', 1), (''@m'', 1),
          (''@n'', 1), (''@o'', 1), (''@p'', 1), (''@q'', 1), (''@r'', 1), (''@s'', 1)]
   \<and> ''@t'' \<in> (\<Union>m \<in> set (processed mentionsEnv [''M1'', ''M2'']). keySet (topMentions m))
   \<and> ''@t'' \<notin> keySet (agg_topMentions (aggregateMetrics mentionsEnv [''M1'', ''M2'']))
   \<and> totalOver topMentions (processed mentionsEnv [''M1'', ''M2'']) ''@v'' = 3
   \<and> totalOver topMentions (processed mentionsEnv [''M1'', ''M2'']) ''@t'' \<le> 1"
proof -
  let ?top = "agg_topMentions (aggregateMetrics mentionsEnv [''M1'', ''M2''])"
  let ?ms = "processed mentionsEnv [''M1'', ''M2'']"
  have doc: "messagesOf mentionsEnv ''M1'' = Inr docM1"
    by (simp add: mentionsEnv_def)
  have len: "length (topMentions (analyzeMessages noDates docM1)) = 22"
    by code_simp
  have top: "?top
       = [(''@v'', 3), (''@a'', 2), (''@b'', 1), (''@c'', 1), (''@d'', 1), (''@e'', 1), (''@f'', 1),
          (''@g'', 1), (''@h'', 1), (''@i'', 1), (''@j'', 1), (''@k'', 1), (''@l'', 1), (''@m'', 1),
          (''@n'', 1), (''@o'', 1), (''@p'', 1), (''@q'', 1), (''@r'', 1), (''@s'', 1)]"
    by code_simp
  have t_in: "''@t'' \<in> (\<Union>m \<in> set ?ms. keySet (topMentions m))"
    by code_simp
  have t_out: "''@t'' \<notin> keySet ?top"
    unfolding top by (simp add: keySet_def)
  note T = topMentions_top20 [of mentionsEnv "[''M1'', ''M2'']" "''M1''" docM1]
  from T have "\<forall>(k, c) \<in> set ?top. c = totalOver topMentions ?ms k" by blast
  moreover have "(''@v'', 3) \<in> set ?top" "(''@s'', 1) \<in> set ?top" unfolding top by simp_all
  ultimately have v: "totalOver topMentions ?ms ''@v'' = 3" by fastforce
  from T t_in t_out have "\<forall>(k', c') \<in> set ?top. totalOver topMentions ?ms ''@t'' \<le> c'" by blast
  with \<open>(''@s'', 1) \<in> set ?top\<close> have t: "totalOver topMentions ?ms ''@t'' \<le> 1" by fastforce
  from doc len top t_in t_out v t show ?thesis by (intro conjI)
qed

end
